theory Spec2Isabelle
  imports Main "HOL-Library.Char_ord" "HOL-Library.List_Lexorder" "HOL-Library.Sublist"
begin

section \<open>Python values used by the prefix-tree graph\<close>

text \<open>
  The exceptions that the modelled code can raise. \<open>TypeError\<close> and \<open>ValueError\<close> are
  Python's built-in failures (a call with a missing positional argument, iterating over
  \<open>None\<close>, \<open>int\<close> of a non-numeral, unpacking too few values); the last two are the
  exceptions imported by \<open>graph.py\<close>.
\<close>

datatype error =
    KeyError
  | IndexError
  | TypeError
  | ValueError
  | StateAlreadyExistsException
  | StateDoesNotExistException

subsection \<open>\<open>str\<close> and \<open>int\<close> on integers\<close>

text \<open>The decimal digit \<open>n < 10\<close> as a character: \<open>chr(ord('0') + n)\<close>.\<close>

definition digit_char :: "nat \<Rightarrow> char" where
  "digit_char n = char_of (of_char (CHR ''0'') + n)"

function str_nat :: "nat \<Rightarrow> string" where
  "str_nat n = (if n < 10 then [digit_char n] else str_nat (n div 10) @ [digit_char (n mod 10)])"
  by pat_completeness auto
termination
  by (relation "measure id") auto

declare str_nat.simps [simp del]

text \<open>Python's \<open>str(i)\<close> for an integer: decimal digits, with a leading minus sign.\<close>

definition str_int :: "int \<Rightarrow> string" where
  "str_int i = (if i < 0 then CHR ''-'' # str_nat (nat (- i)) else str_nat (nat i))"

definition digit_val :: "char \<Rightarrow> nat option" where
  "digit_val c =
     (if CHR ''0'' \<le> c \<and> c \<le> CHR ''9'' then Some (of_char c - of_char (CHR ''0'')) else None)"

fun parse_digits :: "nat \<Rightarrow> string \<Rightarrow> nat option" where
  "parse_digits acc [] = Some acc"
| "parse_digits acc (c # cs) =
     (case digit_val c of None \<Rightarrow> None | Some d \<Rightarrow> parse_digits (10 * acc + d) cs)"

text \<open>
  Python's \<open>int(s)\<close> on the numerals that \<open>str\<close> produces: an optional sign followed by at
  least one decimal digit. Anything else is \<open>None\<close> here and a \<open>ValueError\<close> at the caller.
  (Python also accepts surrounding blanks and underscores between digits; no entry written
  by \<open>__setitem__\<close> contains them.)
\<close>

definition py_int :: "string \<Rightarrow> int option" where
  "py_int s =
     (case s of
        [] \<Rightarrow> None
      | c # cs \<Rightarrow>
          if c = CHR ''-'' then
            (if cs = [] then None else map_option (\<lambda>n. - int n) (parse_digits 0 cs))
          else if c = CHR ''+'' then
            (if cs = [] then None else map_option int (parse_digits 0 cs))
          else map_option int (parse_digits 0 s))"

subsection \<open>Strings: \<open>startswith\<close> and \<open>split('.', 2)\<close>\<close>

definition startswith :: "string \<Rightarrow> string \<Rightarrow> bool" where
  "startswith s p = prefix p s"

definition separator :: string where
  "separator = ''.''"

fun split_once :: "string \<Rightarrow> (string \<times> string) option" where
  "split_once [] = None"
| "split_once (c # cs) =
     (if c = CHR ''.'' then Some ([], cs)
      else (case split_once cs of None \<Rightarrow> None | Some (a, b) \<Rightarrow> Some (c # a, b)))"

text \<open>\<open>value.split('.', 2)\<close>: at most two splits, so one, two or three parts.\<close>

definition split2 :: "string \<Rightarrow> string list" where
  "split2 s =
     (case split_once s of
        None \<Rightarrow> [s]
      | Some (a, r) \<Rightarrow>
          (case split_once r of None \<Rightarrow> [a, r] | Some (b, v) \<Rightarrow> [a, b, v]))"

section \<open>SparseMatrix\<close>

text \<open>
  The matrix is its field \<open>list\<close>: a list of strings \<open>source.destination.value\<close>, kept in
  the order of Python's string comparison (lexicographic on code points).
\<close>

type_synonym sparse_matrix = "string list"

definition entry :: "int \<times> int \<Rightarrow> string \<Rightarrow> string" where
  "entry key v = str_int (fst key) @ separator @ str_int (snd key) @ separator @ v"

text \<open>
  \<open>bisearch\<close>: \<open>low\<close> and \<open>high\<close> are Python integers (\<open>high\<close> starts at \<open>len(arr) - 1\<close>,
  which is \<open>-1\<close> on the empty list). From the entry point \<open>0 \<le> low\<close> and
  \<open>high < len(arr)\<close> always hold, so \<open>arr[ix]\<close> is in range.
\<close>

function bisearch_loop :: "string list \<Rightarrow> string \<Rightarrow> int \<Rightarrow> int \<Rightarrow> nat" where
  "bisearch_loop arr target low high =
     (if high \<ge> low then
        (let ix = (low + high) div 2 in
         if startswith (arr ! nat ix) target then nat ix
         else if target < arr ! nat ix then bisearch_loop arr target low (ix - 1)
         else bisearch_loop arr target (ix + 1) high)
      else length arr)"
  by pat_completeness auto
termination
  by (relation "measure (\<lambda>(arr, target, low, high). nat (high - low + 1))") auto

declare bisearch_loop.simps [simp del]

definition bisearch :: "string list \<Rightarrow> string \<Rightarrow> nat" where
  "bisearch arr target = bisearch_loop arr target 0 (int (length arr) - 1)"

text \<open>\<open>bisect.insort_right\<close> of the standard library: binary search for the insertion point.\<close>

function bisect_right :: "string list \<Rightarrow> string \<Rightarrow> nat \<Rightarrow> nat \<Rightarrow> nat" where
  "bisect_right a x lo hi =
     (if lo < hi then
        (let mid = (lo + hi) div 2 in
         if x < a ! mid then bisect_right a x lo mid else bisect_right a x (mid + 1) hi)
      else lo)"
  by pat_completeness auto
termination
  by (relation "measure (\<lambda>(a, x, lo, hi). hi - lo)") auto

declare bisect_right.simps [simp del]

definition insort_right :: "string list \<Rightarrow> string \<Rightarrow> string list" where
  "insort_right a x = (let lo = bisect_right a x 0 (length a) in take lo a @ x # drop lo a)"

text \<open>
  \<open>__find_index(search_list, item)\<close> compares the index with \<open>len(self.list)\<close>; its only
  caller passes \<open>self.list\<close> as \<open>search_list\<close>.
\<close>

definition find_index_in :: "sparse_matrix \<Rightarrow> string list \<Rightarrow> int \<times> int \<Rightarrow> nat option" where
  "find_index_in self_list search_list item =
     (let index = bisearch search_list
                    (str_int (fst item) @ separator @ str_int (snd item) @ separator)
      in if index \<noteq> length self_list then Some index else None)"

definition find_index :: "sparse_matrix \<Rightarrow> int \<times> int \<Rightarrow> nat option" where
  "find_index m coordinates = find_index_in m m coordinates"

text \<open>\<open>__setitem__\<close>; the third argument is \<open>str(value)\<close>.\<close>

definition setitem :: "sparse_matrix \<Rightarrow> int \<times> int \<Rightarrow> string \<Rightarrow> sparse_matrix" where
  "setitem m key v =
     (case find_index m key of
        None \<Rightarrow> insort_right m (entry key v)
      | Some index \<Rightarrow> m[index := entry key v])"

text \<open>\<open>__contains__\<close>: the searched prefix is \<open>source.destination\<close>, without a closing separator.\<close>

definition contains :: "sparse_matrix \<Rightarrow> int \<times> int \<Rightarrow> bool" where
  "contains m item =
     (let index = bisearch m (str_int (fst item) @ separator @ str_int (snd item))
      in if index \<noteq> length m then True else False)"

text \<open>
  \<open>get_values(array, index)\<close>, a static method of two parameters. The index is a natural
  number here, so the source's test \<open>index < 0\<close> has no case. The tuple
  \<open>int(strings[0]), int(strings[1]), strings[2]\<close> is evaluated from left to right.
\<close>

definition get_values :: "string list \<Rightarrow> nat \<Rightarrow> error + (int \<times> int \<times> string)" where
  "get_values array index =
     (if index \<ge> length array then Inl IndexError
      else
        (let strings = split2 (array ! index) in
         case py_int (strings ! 0) of
           None \<Rightarrow> Inl ValueError
         | Some a \<Rightarrow>
             if length strings < 2 then Inl IndexError
             else
               (case py_int (strings ! 1) of
                  None \<Rightarrow> Inl ValueError
                | Some b \<Rightarrow>
                    if length strings < 3 then Inl IndexError
                    else Inr (a, b, strings ! 2))))"

text \<open>
  \<open>find_edge\<close> calls \<open>self.get_values(self.find_index(coordinates))\<close>: one positional
  argument for a static method that requires two (\<open>array\<close> and \<open>index\<close>). After
  \<open>find_index\<close> has been evaluated, which has no effect, the call raises \<open>TypeError\<close>,
  whatever the matrix and the coordinates are.
\<close>

definition find_edge :: "sparse_matrix \<Rightarrow> int \<times> int \<Rightarrow> error + string option" where
  "find_edge m coordinates = (case find_index m coordinates of _ \<Rightarrow> Inl TypeError)"

text \<open>\<open>__getitem__\<close>\<close>

definition getitem :: "sparse_matrix \<Rightarrow> int \<times> int \<Rightarrow> error + string" where
  "getitem m key =
     (case find_edge m key of
        Inl e \<Rightarrow> Inl e
      | Inr None \<Rightarrow> Inl KeyError
      | Inr (Some v) \<Rightarrow> Inr v)"

text \<open>
  The two scans of \<open>__find_children\<close>. The first walks \<open>idx = index - 1, index - 2, ...\<close>
  down to \<open>0\<close>; its counter here is \<open>idx + 1\<close>. The second walks
  \<open>idx = index + 1, ...\<close> up to the end of the list.
\<close>

fun scan_down :: "string list \<Rightarrow> string \<Rightarrow> nat \<Rightarrow> error + (int \<times> string) list" where
  "scan_down search_list p 0 = Inr []"
| "scan_down search_list p (Suc idx) =
     (if startswith (search_list ! idx) p then
        (case get_values search_list idx of
           Inl e \<Rightarrow> Inl e
         | Inr current \<Rightarrow>
             (case scan_down search_list p idx of
                Inl e \<Rightarrow> Inl e
              | Inr rest \<Rightarrow> Inr ((fst (snd current), snd (snd current)) # rest)))
      else Inr [])"

function scan_up :: "string list \<Rightarrow> string \<Rightarrow> nat \<Rightarrow> error + (int \<times> string) list" where
  "scan_up search_list p idx =
     (if idx < length search_list \<and> startswith (search_list ! idx) p then
        (case get_values search_list idx of
           Inl e \<Rightarrow> Inl e
         | Inr current \<Rightarrow>
             (case scan_up search_list p (idx + 1) of
                Inl e \<Rightarrow> Inl e
              | Inr rest \<Rightarrow> Inr ((fst (snd current), snd (snd current)) # rest)))
      else Inr [])"
  by pat_completeness auto
termination
  by (relation "measure (\<lambda>(search_list, p, idx). length search_list - idx)") auto

declare scan_up.simps [simp del]

text \<open>\<open>__find_children\<close>: \<open>None\<close> when no entry has the prefix, else the list of pairs.\<close>

definition find_children_in ::
  "string list \<Rightarrow> int \<Rightarrow> error + (int \<times> string) list option" where
  "find_children_in search_list item =
     (let p = str_int item @ separator; index = bisearch search_list p in
      if index \<noteq> length search_list then
        (case get_values search_list index of
           Inl e \<Rightarrow> Inl e
         | Inr current \<Rightarrow>
             (case scan_down search_list p index of
                Inl e \<Rightarrow> Inl e
              | Inr down \<Rightarrow>
                  (case scan_up search_list p (index + 1) of
                     Inl e \<Rightarrow> Inl e
                   | Inr up \<Rightarrow>
                       Inr (Some ((fst (snd current), snd (snd current)) # down @ up)))))
      else Inr None)"

definition find_children :: "sparse_matrix \<Rightarrow> int \<Rightarrow> error + (int \<times> string) list option" where
  "find_children m item = find_children_in m item"

text \<open>
  \<open>get_parents\<close>: the mirror list is built entry by entry; the unpacking
  \<open>parent, child, props = item.split('.', 2)\<close> raises \<open>ValueError\<close> unless there are
  exactly three parts.
\<close>

fun mirror :: "string list \<Rightarrow> string list \<Rightarrow> error + string list" where
  "mirror reverse [] = Inr reverse"
| "mirror reverse (item # items) =
     (case split2 item of
        [parent, child, props] \<Rightarrow>
          mirror (insort_right reverse (child @ ''.'' @ parent @ ''.'' @ props)) items
      | _ \<Rightarrow> Inl ValueError)"

definition get_parents :: "sparse_matrix \<Rightarrow> int \<Rightarrow> error + int list" where
  "get_parents m i =
     (case mirror [] m of
        Inl e \<Rightarrow> Inl e
      | Inr reverse \<Rightarrow>
          (case find_children_in reverse i of
             Inl e \<Rightarrow> Inl e
           | Inr children \<Rightarrow>
               if children \<noteq> None then
                 (case find_children_in reverse i of
                    Inl e \<Rightarrow> Inl e
                  | Inr None \<Rightarrow> Inl TypeError
                  | Inr (Some tups) \<Rightarrow> Inr (map fst tups))
               else Inr []))"

text \<open>
  An entry read back as source, destination and payload: the three parts of
  \<open>split('.', 2)\<close>, the first two as integers; \<open>None\<close> for a string that is not of this
  form.
\<close>

definition decode_entry :: "string \<Rightarrow> (int \<times> int \<times> string) option" where
  "decode_entry e =
     (case split2 e of
        [a, b, v] \<Rightarrow>
          (case py_int a of
             None \<Rightarrow> None
           | Some s \<Rightarrow> (case py_int b of None \<Rightarrow> None | Some d \<Rightarrow> Some (s, d, v)))
      | _ \<Rightarrow> None)"

definition has_source :: "int \<Rightarrow> string \<Rightarrow> bool" where
  "has_source i e = (case decode_entry e of None \<Rightarrow> False | Some (s, d, v) \<Rightarrow> s = i)"

definition has_destination :: "int \<Rightarrow> string \<Rightarrow> bool" where
  "has_destination i e = (case decode_entry e of None \<Rightarrow> False | Some (s, d, v) \<Rightarrow> d = i)"

text \<open>
  Modelled from the spec: \<open>SparseMatrix.change_parent_of_children\<close> is called by
  \<open>Graph.merge_states\<close> with the indices of \<open>(state1, state2)\<close> but is not defined in
  \<open>sparse_matrix.py\<close>. The spec describes this step of the merge as redirecting every edge
  whose source is absorb's index to originate from keep's index ("keep inherits absorb's
  children"), and the rewrite of the index as redirecting every edge that touches the
  retired index onto the surviving one, where a rewritten pair that collides with an
  existing entry is deduplicated, the later write wins and payloads are not summed. Each
  entry with the old source is taken out of the list and written again with
  \<open>__setitem__\<close> under its new key.
\<close>

definition change_parent_of_children :: "sparse_matrix \<Rightarrow> int \<Rightarrow> int \<Rightarrow> sparse_matrix" where
  "change_parent_of_children m parent old_parent =
     foldl (\<lambda>acc e. case decode_entry e of None \<Rightarrow> acc | Some (s, d, v) \<Rightarrow> setitem acc (parent, d) v)
       (filter (\<lambda>e. \<not> has_source old_parent e) m)
       (filter (has_source old_parent) m)"

text \<open>
  Modelled from the spec: \<open>SparseMatrix.change_children_of_parents\<close> is called by
  \<open>Graph.merge_states\<close> with the indices of \<open>(state2, state1)\<close> but is not defined in
  \<open>sparse_matrix.py\<close>. The spec describes this step of the merge as redirecting every edge
  whose destination is absorb's index to keep's index ("children of absorb's parents now
  point to keep"), with the same treatment of colliding pairs. Each entry with the old
  destination is taken out of the list and written again with \<open>__setitem__\<close> under its
  new key.
\<close>

definition change_children_of_parents :: "sparse_matrix \<Rightarrow> int \<Rightarrow> int \<Rightarrow> sparse_matrix" where
  "change_children_of_parents m old_child child =
     foldl (\<lambda>acc e. case decode_entry e of None \<Rightarrow> acc | Some (s, d, v) \<Rightarrow> setitem acc (s, child) v)
       (filter (\<lambda>e. \<not> has_destination old_child e) m)
       (filter (has_destination old_child) m)"

section \<open>State and Graph\<close>

text \<open>
  A \<open>State\<close> is a Python object: the graph and its callers hold references to it, and
  \<open>merge_states\<close> writes its fields. References are the object identities \<open>id(state)\<close>;
  the heap gives every reference its object (a Python reference never dangles). A
  \<open>StateProperties\<close> object is never written after its construction, so the state holds its
  \<open>log_templates\<close> by value.
\<close>

type_synonym ref = nat

record state =
  log_templates :: "string list"
  is_terminal :: bool

type_synonym heap = "ref \<Rightarrow> state"

text \<open>
  The fields of \<open>Graph\<close>. \<open>syntax_tree.search\<close> maps a line to the name of its template or
  to \<open>None\<close>; the syntax tree is an external collaborator. The keys of \<open>prop_by_hash\<close> are
  the values of \<open>StateProperties.get_prop_hash\<close>, a function that is not part of the
  sources at hand: it is the parameter \<open>h\<close> of the operations below.
\<close>

record 'h graph =
  syntax_tree :: "string \<Rightarrow> string option"
  edges :: sparse_matrix
  states :: "int \<rightharpoonup> ref"
  state_indices_by_id :: "ref \<rightharpoonup> int"
  prop_by_hash :: "'h \<rightharpoonup> string list"
  start_node :: "ref option"

type_synonym 'h world = "heap \<times> 'h graph"

definition template_matches_state :: "heap \<Rightarrow> string \<Rightarrow> ref \<Rightarrow> bool" where
  "template_matches_state hp template s = (template \<in> set (log_templates (hp s)))"

text \<open>\<open>Graph.__contains__\<close>\<close>

definition graph_contains :: "'h graph \<Rightarrow> ref \<Rightarrow> bool" where
  "graph_contains g item = (state_indices_by_id g item \<noteq> None)"

definition get_state_by_id :: "'h graph \<Rightarrow> ref \<Rightarrow> error + ref" where
  "get_state_by_id g state_id =
     (case state_indices_by_id g state_id of
        None \<Rightarrow> Inl StateDoesNotExistException
      | Some i \<Rightarrow> (case states g i of None \<Rightarrow> Inl KeyError | Some s \<Rightarrow> Inr s))"

definition graph_size :: "'h graph \<Rightarrow> nat" where
  "graph_size g = card (dom (states g))"

text \<open>The list comprehension \<open>[self.states[r] for r in results]\<close>: a missing key raises.\<close>

fun lookup_states :: "(int \<rightharpoonup> ref) \<Rightarrow> int list \<Rightarrow> error + ref list" where
  "lookup_states st [] = Inr []"
| "lookup_states st (i # is) =
     (case st i of
        None \<Rightarrow> Inl KeyError
      | Some s \<Rightarrow> (case lookup_states st is of Inl e \<Rightarrow> Inl e | Inr ss \<Rightarrow> Inr (s # ss)))"

definition get_outgoing_states :: "'h graph \<Rightarrow> ref \<Rightarrow> error + ref list option" where
  "get_outgoing_states g s =
     (case state_indices_by_id g s of
        None \<Rightarrow> Inr None
      | Some i \<Rightarrow>
          (case find_children (edges g) i of
             Inl e \<Rightarrow> Inl e
           | Inr None \<Rightarrow> Inr (Some [])
           | Inr (Some results) \<Rightarrow>
               (case lookup_states (states g) (map fst results) of
                  Inl e \<Rightarrow> Inl e
                | Inr ss \<Rightarrow> Inr (Some ss))))"

definition get_outgoing_states_not_self :: "'h graph \<Rightarrow> ref \<Rightarrow> error + ref list" where
  "get_outgoing_states_not_self g current =
     (case get_outgoing_states g current of
        Inl e \<Rightarrow> Inl e
      | Inr None \<Rightarrow> Inr []
      | Inr (Some outgoing) \<Rightarrow>
          if outgoing \<noteq> [] then Inr (filter (\<lambda>x. x \<noteq> current) outgoing) else Inr [])"

definition get_incoming_states :: "'h graph \<Rightarrow> ref \<Rightarrow> error + ref list option" where
  "get_incoming_states g s =
     (case state_indices_by_id g s of
        None \<Rightarrow> Inr None
      | Some i \<Rightarrow>
          (case get_parents (edges g) i of
             Inl e \<Rightarrow> Inl e
           | Inr results \<Rightarrow>
               if results \<noteq> [] then
                 (case lookup_states (states g) results of
                    Inl e \<Rightarrow> Inl e
                  | Inr ss \<Rightarrow> Inr (Some ss))
               else Inr (Some [])))"

text \<open>
  The interning step shared by \<open>add_state\<close> and \<open>merge_states\<close>: if the hash of the state's
  properties is a key of \<open>prop_by_hash\<close>, the state takes the stored properties, else its
  own properties are stored.
\<close>

definition intern :: "(string list \<Rightarrow> 'h) \<Rightarrow> 'h world \<Rightarrow> ref \<Rightarrow> 'h world" where
  "intern h w s =
     (let hp = fst w; g = snd w; key = h (log_templates (hp s)) in
      case prop_by_hash g key of
        Some p \<Rightarrow> (hp(s := (hp s)\<lparr>log_templates := p\<rparr>), g)
      | None \<Rightarrow> (hp, g\<lparr>prop_by_hash := (prop_by_hash g)(key \<mapsto> log_templates (hp s))\<rparr>))"

text \<open>
  The mutating operations return the heap and the graph; when they raise, the error comes
  with the heap and the graph as they are at that moment.
\<close>

definition add_state ::
  "(string list \<Rightarrow> 'h) \<Rightarrow> 'h world \<Rightarrow> ref \<Rightarrow> (error \<times> 'h world) + 'h world" where
  "add_state h w s =
     (let hp = fst w; g = snd w in
      if graph_contains g s then Inl (StateAlreadyExistsException, w)
      else
        (let curr_index = int (card (dom (states g)));
             g1 = g\<lparr>states := (states g)(curr_index \<mapsto> s)\<rparr>;
             g2 = g1\<lparr>state_indices_by_id := (state_indices_by_id g1)(s \<mapsto> curr_index)\<rparr>
         in Inr (intern h (hp, g2) s)))"

definition merge_states ::
  "(string list \<Rightarrow> 'h) \<Rightarrow> 'h world \<Rightarrow> ref \<Rightarrow> ref \<Rightarrow> (error \<times> 'h world) + 'h world" where
  "merge_states h w state1 state2 =
     (let hp = fst w; g = snd w;
          props = log_templates (hp state1) @
                  filter (\<lambda>temp. temp \<notin> set (log_templates (hp state1)))
                    (log_templates (hp state2));
          hp1 = hp(state1 := (hp state1)\<lparr>log_templates := props\<rparr>);
          hp2 = (if is_terminal (hp1 state2)
                 then hp1(state1 := (hp1 state1)\<lparr>is_terminal := True\<rparr>) else hp1);
          g1 = (if start_node g = Some state2 then g\<lparr>start_node := Some state1\<rparr> else g);
          w3 = intern h (hp2, g1) state1;
          hp3 = fst w3; g3 = snd w3
      in
      case state_indices_by_id g3 state1 of
        None \<Rightarrow> Inl (KeyError, w3)
      | Some i1 \<Rightarrow>
          (case state_indices_by_id g3 state2 of
             None \<Rightarrow> Inl (KeyError, w3)
           | Some i2 \<Rightarrow>
               (let g4 = g3\<lparr>edges := change_parent_of_children (edges g3) i1 i2\<rparr>;
                    g5 = g4\<lparr>edges := change_children_of_parents (edges g4) i2 i1\<rparr>
                in
                if states g5 i2 = None then Inl (KeyError, (hp3, g5))
                else
                  (let g6 = g5\<lparr>states := (states g5)(i2 := None)\<rparr>;
                       g7 = g6\<lparr>state_indices_by_id := (state_indices_by_id g6)(state2 := None)\<rparr>
                   in Inr (hp3, g7)))))"

text \<open>\<open>add_edge\<close>; the last argument is \<open>str(props)\<close>. No statement of it raises.\<close>

definition add_edge :: "'h graph \<Rightarrow> ref \<Rightarrow> ref \<Rightarrow> string \<Rightarrow> 'h graph \<times> bool" where
  "add_edge g start end' props =
     (case state_indices_by_id g start of
        None \<Rightarrow> (g, False)
      | Some start_index \<Rightarrow>
          (case state_indices_by_id g end' of
             None \<Rightarrow> (g, False)
           | Some end_index \<Rightarrow>
               if \<not> contains (edges g) (start_index, end_index)
               then (g\<lparr>edges := setitem (edges g) (start_index, end_index) props\<rparr>, True)
               else (g, False)))"

text \<open>
  \<open>update_edge\<close>: the new value is \<open>int(self.edges[start_index, end_index]) + passes\<close>.
  An error is raised while the right-hand side is evaluated, before anything is written.
\<close>

definition update_edge :: "'h graph \<Rightarrow> ref \<Rightarrow> ref \<Rightarrow> int \<Rightarrow> error + ('h graph \<times> bool)" where
  "update_edge g start end' passes =
     (case state_indices_by_id g start of
        None \<Rightarrow> Inr (g, False)
      | Some start_index \<Rightarrow>
          (case state_indices_by_id g end' of
             None \<Rightarrow> Inr (g, False)
           | Some end_index \<Rightarrow>
               if contains (edges g) (start_index, end_index) then
                 (case getitem (edges g) (start_index, end_index) of
                    Inl e \<Rightarrow> Inl e
                  | Inr v \<Rightarrow>
                      (case py_int v of
                         None \<Rightarrow> Inl ValueError
                       | Some n \<Rightarrow>
                           Inr (g\<lparr>edges := setitem (edges g) (start_index, end_index)
                                             (str_int (n + passes))\<rparr>, True)))
               else Inr (g, False)))"

subsection \<open>Trace matching\<close>

text \<open>
  \<open>random.choice\<close> draws from the process-wide generator. The generator is the sequence of
  its future draws; a choice takes the first draw, reduced to an index of the list, and
  leaves the rest. It is only called on non-empty lists.
\<close>

type_synonym rng = "nat \<Rightarrow> nat"

definition choice :: "rng \<Rightarrow> 'a list \<Rightarrow> 'a \<times> rng" where
  "choice r xs = (xs ! (r 0 mod length xs), (\<lambda>n. r (Suc n)))"

text \<open>
  \<open>match_trace_rec\<close>: the loop consumes the local list \<open>trace\<close> (rebinding it, not
  writing the caller's list) and appends to \<open>res\<close>. Filtering or iterating over the
  \<open>None\<close> that \<open>get_outgoing_states\<close> returns for an unknown state raises \<open>TypeError\<close>.
\<close>

fun match_trace_loop ::
  "heap \<Rightarrow> 'h graph \<Rightarrow> rng \<Rightarrow> ref \<Rightarrow> ref list \<Rightarrow> string list \<Rightarrow> error + (ref list option \<times> rng)" where
  "match_trace_loop hp g r current_state res [] =
     (case get_outgoing_states g current_state of
        Inl e \<Rightarrow> Inl e
      | Inr None \<Rightarrow> Inl TypeError
      | Inr (Some out) \<Rightarrow>
          if filter (\<lambda>s. is_terminal (hp s)) out \<noteq> [] then Inr (Some res, r) else Inr (None, r))"
| "match_trace_loop hp g r current_state res (line # trace) =
     (case syntax_tree g line of
        None \<Rightarrow> Inr (None, r)
      | Some template \<Rightarrow>
          (case get_outgoing_states g current_state of
             Inl e \<Rightarrow> Inl e
           | Inr None \<Rightarrow> Inl TypeError
           | Inr (Some children) \<Rightarrow>
               (let successor = filter (template_matches_state hp template) children in
                if successor = [] then Inr (None, r)
                else
                  (let (next_state, r') = choice r successor in
                   match_trace_loop hp g r' next_state (res @ [next_state]) trace))))"

definition match_trace_rec ::
  "heap \<Rightarrow> 'h graph \<Rightarrow> rng \<Rightarrow> ref \<Rightarrow> string list \<Rightarrow> error + (ref list option \<times> rng)" where
  "match_trace_rec hp g r current_state trace =
     match_trace_loop hp g r current_state [current_state] trace"

text \<open>
  \<open>get_outgoing_states(self.start_node)\<close>: a graph built without a start node has
  \<open>start_node = None\<close>, which is not a key of \<open>state_indices_by_id\<close>.
\<close>

definition outgoing_of_start :: "'h graph \<Rightarrow> error + ref list option" where
  "outgoing_of_start g =
     (case start_node g of None \<Rightarrow> Inr None | Some s \<Rightarrow> get_outgoing_states g s)"

text \<open>
  \<open>match_trace\<close> returns its result together with the caller's list \<open>trace\<close> as the call
  leaves it (the slice assignment \<open>trace[:] = trace[1:]\<close> writes the caller's object) and
  the generator.
\<close>

definition match_trace ::
  "heap \<Rightarrow> 'h graph \<Rightarrow> rng \<Rightarrow> string list \<Rightarrow> error + (ref list option \<times> string list \<times> rng)" where
  "match_trace hp g r trace =
     (if length trace = 0 then Inr (Some [], trace, r)
      else
        (case syntax_tree g (trace ! 0) of
           None \<Rightarrow> Inr (None, trace, r)
         | Some template \<Rightarrow>
             (case outgoing_of_start g of
                Inl e \<Rightarrow> Inl e
              | Inr None \<Rightarrow> Inl TypeError
              | Inr (Some out) \<Rightarrow>
                  (let root_children = filter (template_matches_state hp template) out in
                   if length root_children = 0 then Inr (None, trace, r)
                   else
                     (let (current_state, r1) = choice r root_children in
                      if template_matches_state hp template current_state then
                        (if length trace = 1 then
                           (case get_outgoing_states g current_state of
                              Inl e \<Rightarrow> Inl e
                            | Inr None \<Rightarrow> Inl TypeError
                            | Inr (Some out1) \<Rightarrow>
                                if filter (\<lambda>s. is_terminal (hp s)) out1 \<noteq> []
                                then Inr (Some [current_state], trace, r1)
                                else Inr (None, trace, r1))
                         else
                           (let trace1 = drop 1 trace in
                            case syntax_tree g (trace1 ! 0) of
                              None \<Rightarrow> Inr (None, trace1, r1)
                            | Some template1 \<Rightarrow>
                                (case get_outgoing_states g current_state of
                                   Inl e \<Rightarrow> Inl e
                                 | Inr None \<Rightarrow> Inl TypeError
                                 | Inr (Some children) \<Rightarrow>
                                     (let successor =
                                            filter (template_matches_state hp template1) children
                                      in
                                      if length successor = 0 then Inr (None, trace1, r1)
                                      else
                                        (let (next_node, r2) = choice r1 successor in
                                         case match_trace_rec hp g r2 next_node (drop 1 trace1) of
                                           Inl e \<Rightarrow> Inl e
                                         | Inr (None, r3) \<Rightarrow> Inr (None, trace1, r3)
                                         | Inr (Some tail, r3) \<Rightarrow>
                                             Inr (Some (current_state # tail), trace1, r3))))))
                      else Inr (None, trace, r1))))))"

section \<open>Concrete graphs\<close>

text \<open>\<open>Graph.__init__\<close>: no edges, no states, an empty interning table.\<close>

definition new_graph :: "(string \<Rightarrow> string option) \<Rightarrow> ref option \<Rightarrow> 'h graph" where
  "new_graph st sn =
     \<lparr>syntax_tree = st, edges = [], states = Map.empty, state_indices_by_id = Map.empty,
      prop_by_hash = Map.empty, start_node = sn\<rparr>"

text \<open>A run of \<open>add_state\<close> calls, stopping at the first one that raises.\<close>

fun add_states ::
  "(string list \<Rightarrow> 'h) \<Rightarrow> 'h world \<Rightarrow> ref list \<Rightarrow> (error \<times> 'h world) + 'h world" where
  "add_states h w [] = Inr w"
| "add_states h w (s # ss) =
     (case add_state h w s of Inl e \<Rightarrow> Inl e | Inr w' \<Rightarrow> add_states h w' ss)"

text \<open>A heap in which every state was built as \<open>State(["A"])\<close>.\<close>

definition hpA :: heap where
  "hpA = (\<lambda>r. \<lparr>log_templates = [''A''], is_terminal = False\<rparr>)"

text \<open>
  A second heap: the root \<open>State([""])\<close>, then \<open>State(["A"])\<close>, \<open>State(["B"])\<close>, and a
  terminal \<open>State(["C"], True)\<close> for every other reference.
\<close>

definition hpT :: heap where
  "hpT = (\<lambda>r. if r = 0 then \<lparr>log_templates = [''''], is_terminal = False\<rparr>
               else if r = 1 then \<lparr>log_templates = [''A''], is_terminal = False\<rparr>
               else if r = 2 then \<lparr>log_templates = [''B''], is_terminal = False\<rparr>
               else \<lparr>log_templates = [''C''], is_terminal = True\<rparr>)"

text \<open>
  The chain \<open>s0 \<rightarrow> s1 \<rightarrow> s2 \<rightarrow> s3\<close> rooted at \<open>s0\<close>, as four \<open>add_state\<close> and three
  \<open>add_edge\<close> calls build it with the identity as hash; and the graph that holds only the
  terminal state \<open>s3\<close>, which is also its start node.
\<close>

definition chain_graph :: "string list graph" where
  "chain_graph =
     \<lparr>syntax_tree = Some,
      edges = [''0.1.1'', ''1.2.1'', ''2.3.1''],
      states = [0 \<mapsto> 0, 1 \<mapsto> 1, 2 \<mapsto> 2, 3 \<mapsto> 3],
      state_indices_by_id = [0 \<mapsto> 0, 1 \<mapsto> 1, 2 \<mapsto> 2, 3 \<mapsto> 3],
      prop_by_hash = [[''''] \<mapsto> [''''], [''A''] \<mapsto> [''A''], [''B''] \<mapsto> [''B''], [''C''] \<mapsto> [''C'']],
      start_node = Some 0\<rparr>"

definition lone_graph :: "string list graph" where
  "lone_graph =
     \<lparr>syntax_tree = Some, edges = [], states = [0 \<mapsto> 3], state_indices_by_id = [3 \<mapsto> 0],
      prop_by_hash = [[''C''] \<mapsto> [''C'']], start_node = Some 3\<rparr>"

text \<open>The error of a mutating call, if it raised, and the heap and graph it leaves.\<close>

definition raised :: "(error \<times> 'w) + 'w \<Rightarrow> error option" where
  "raised x = (case x of Inl (e, w) \<Rightarrow> Some e | Inr w \<Rightarrow> None)"

definition world_after :: "(error \<times> 'w) + 'w \<Rightarrow> 'w" where
  "world_after x = (case x of Inl (e, w) \<Rightarrow> w | Inr w \<Rightarrow> w)"

text \<open>
  The heap and graph after \<open>add_state(s0)\<close>, \<open>add_state(s1)\<close>, \<open>add_state(s2)\<close>,
  \<open>merge_states(s0, s1)\<close>, \<open>add_state(s3)\<close>, \<open>merge_states(s0, s2)\<close>; and the same after
  one more call, \<open>add_edge(s3, s0, "1")\<close>.
\<close>

definition reused_world :: "string list world" where
  "reused_world =
     world_after (merge_states id
       (world_after (add_state id
         (world_after (merge_states id
           (world_after (add_states id (hpA, new_graph Some None) [0, 1, 2])) 0 1)) 3)) 0 2)"

definition stale_world :: "string list world" where
  "stale_world = (fst reused_world, fst (add_edge (snd reused_world) 3 0 ''1''))"

text \<open>
  A hash that gives every template list of length two the same value, a heap with
  \<open>State(["A"])\<close>, \<open>State(["B"])\<close> and \<open>State(["C", "D"])\<close>, and the heap and graph after
  these three states have been added under that hash.
\<close>

definition colliding_hash :: "string list \<Rightarrow> string list" where
  "colliding_hash p = (if length p = 2 then [] else p)"

definition hpC :: heap where
  "hpC = (\<lambda>r. if r = 0 then \<lparr>log_templates = [''A''], is_terminal = False\<rparr>
               else if r = 1 then \<lparr>log_templates = [''B''], is_terminal = False\<rparr>
               else \<lparr>log_templates = [''C'', ''D''], is_terminal = False\<rparr>)"

definition collide_world :: "string list world" where
  "collide_world = world_after (add_states colliding_hash (hpC, new_graph Some None) [0, 1, 2])"

section \<open>Notions used by the properties\<close>

text \<open>
  An entry is well formed when it is what \<open>__setitem__\<close> writes for the pair and payload
  that it decodes to. \<open>edge_pairs\<close> lists the (source, destination) pairs of a matrix.
  \<open>redirect old new\<close> is the renaming of indices that a merge performs.
\<close>

definition wf_entry :: "string \<Rightarrow> bool" where
  "wf_entry e = (case decode_entry e of None \<Rightarrow> False | Some (s, d, v) \<Rightarrow> e = entry (s, d) v)"

definition edge_pairs :: "sparse_matrix \<Rightarrow> (int \<times> int) list" where
  "edge_pairs m = map (\<lambda>t. (fst t, fst (snd t))) (List.map_filter decode_entry m)"

definition redirect :: "int \<Rightarrow> int \<Rightarrow> int \<Rightarrow> int" where
  "redirect old new x = (if x = old then new else x)"

text \<open>
  A well-formed graph: finitely many states; every identity in \<open>state_indices_by_id\<close> maps
  to the index under which \<open>states\<close> holds that very state; every edge entry is well
  formed.
\<close>

definition well_formed :: "'h graph \<Rightarrow> bool" where
  "well_formed g \<longleftrightarrow>
     finite (dom (states g))
     \<and> (\<forall>r i. state_indices_by_id g r = Some i \<longrightarrow> states g i = Some r)
     \<and> (\<forall>e \<in> set (edges g). wf_entry e)"

text \<open>
  The template list that \<open>merge_states(state1, state2)\<close> builds for \<open>state1\<close>. The
  interning table is free of a collision for a template list when the entry stored under
  the hash of the list, if there is one, holds the same templates.
\<close>

definition merged_templates :: "heap \<Rightarrow> ref \<Rightarrow> ref \<Rightarrow> string list" where
  "merged_templates hp state1 state2 =
     log_templates (hp state1) @
     filter (\<lambda>temp. temp \<notin> set (log_templates (hp state1))) (log_templates (hp state2))"

definition no_collision :: "(string list \<Rightarrow> 'h) \<Rightarrow> 'h graph \<Rightarrow> string list \<Rightarrow> bool" where
  "no_collision h g ts \<longleftrightarrow> (\<forall>q. prop_by_hash g (h ts) = Some q \<longrightarrow> set q = set ts)"

text \<open>
  What \<open>match_trace\<close> hands back to its caller, without the list and the generator.
  \<open>accepts\<close> is the final test of the walk: some outgoing state of the last visited state
  is terminal.
\<close>

definition result_of ::
  "error + (ref list option \<times> string list \<times> rng) \<Rightarrow> error + ref list option" where
  "result_of x = (case x of Inl e \<Rightarrow> Inl e | Inr (res, trace, r) \<Rightarrow> Inr res)"

definition accepts :: "heap \<Rightarrow> 'h graph \<Rightarrow> ref \<Rightarrow> error + bool" where
  "accepts hp g s =
     (case get_outgoing_states g s of
        Inl e \<Rightarrow> Inl e
      | Inr None \<Rightarrow> Inl TypeError
      | Inr (Some out) \<Rightarrow> Inr (filter (\<lambda>s. is_terminal (hp s)) out \<noteq> []))"

text \<open>
  The walk along sole candidates, in the spec's words: at every line the template resolves
  and exactly one outgoing state of the current state has the resolved template in its
  template list; the result is the list of these states. A trace is unambiguous when this
  walk from the start node covers the whole trace.
\<close>

fun sole_walk :: "heap \<Rightarrow> 'h graph \<Rightarrow> ref \<Rightarrow> string list \<Rightarrow> ref list option" where
  "sole_walk hp g cur [] = Some []"
| "sole_walk hp g cur (line # trace) =
     (case syntax_tree g line of
        None \<Rightarrow> None
      | Some template \<Rightarrow>
          (case get_outgoing_states g cur of
             Inr (Some children) \<Rightarrow>
               (case filter (\<lambda>s. template \<in> set (log_templates (hp s))) children of
                  [s] \<Rightarrow> (case sole_walk hp g s trace of None \<Rightarrow> None | Some p \<Rightarrow> Some (s # p))
                | _ \<Rightarrow> None)
           | _ \<Rightarrow> None))"

definition unambiguous :: "heap \<Rightarrow> 'h graph \<Rightarrow> string list \<Rightarrow> bool" where
  "unambiguous hp g trace =
     (case start_node g of None \<Rightarrow> False | Some root \<Rightarrow> sole_walk hp g root trace \<noteq> None)"

definition unique_path :: "heap \<Rightarrow> 'h graph \<Rightarrow> string list \<Rightarrow> ref list" where
  "unique_path hp g trace =
     (case start_node g of
        None \<Rightarrow> []
      | Some root \<Rightarrow> (case sole_walk hp g root trace of None \<Rightarrow> [] | Some p \<Rightarrow> p))"

text \<open>The first line resolves and some outgoing state of the start node holds its template.\<close>

definition first_line_matches :: "heap \<Rightarrow> 'h graph \<Rightarrow> string list \<Rightarrow> bool" where
  "first_line_matches hp g trace =
     (case syntax_tree g (trace ! 0) of
        None \<Rightarrow> False
      | Some template \<Rightarrow>
          (case outgoing_of_start g of
             Inr (Some out) \<Rightarrow> filter (template_matches_state hp template) out \<noteq> []
           | _ \<Rightarrow> False))"

section \<open>Integers and entries as strings\<close>

lemma digit_val_digit_char: "n < 10 \<Longrightarrow> digit_val (digit_char n) = Some n"
  by (simp add: digit_val_def digit_char_def less_eq_char_def)

lemma digit_val_dot: "digit_val (CHR ''.'') = None"
  by (simp add: digit_val_def less_eq_char_def)

lemma digit_val_minus: "digit_val (CHR ''-'') = None"
  by (simp add: digit_val_def less_eq_char_def)

lemma digit_val_plus: "digit_val (CHR ''+'') = None"
  by (simp add: digit_val_def less_eq_char_def)

lemma parse_digits_append:
  "parse_digits acc (xs @ ys) =
     (case parse_digits acc xs of None \<Rightarrow> None | Some a \<Rightarrow> parse_digits a ys)"
  by (induction xs arbitrary: acc) (auto split: option.splits)

lemma parse_digits_str_nat: "parse_digits 0 (str_nat n) = Some n"
proof (induction n rule: str_nat.induct)
  case (1 n)
  show ?case
  proof (cases "n < 10")
    case True
    then show ?thesis
      by (subst str_nat.simps) (simp add: digit_val_digit_char)
  next
    case False
    with 1 have ih: "parse_digits 0 (str_nat (n div 10)) = Some (n div 10)"
      by simp
    have "n mod 10 < 10" by simp
    then have d: "digit_val (digit_char (n mod 10)) = Some (n mod 10)"
      by (rule digit_val_digit_char)
    show ?thesis
      using False by (subst str_nat.simps) (simp add: parse_digits_append ih d)
  qed
qed

lemma str_nat_nonempty: "str_nat n \<noteq> []"
  by (subst str_nat.simps) simp

lemma str_nat_digits: "c \<in> set (str_nat n) \<Longrightarrow> digit_val c \<noteq> None"
proof (induction n rule: str_nat.induct)
  case (1 n)
  show ?case
  proof (cases "n < 10")
    case True
    with "1.prems" show ?thesis
      by (subst (asm) str_nat.simps) (simp add: digit_val_digit_char)
  next
    case False
    have "n mod 10 < 10" by simp
    then have d: "digit_val (digit_char (n mod 10)) = Some (n mod 10)"
      by (rule digit_val_digit_char)
    from "1.prems" False have "c \<in> set (str_nat (n div 10)) \<or> c = digit_char (n mod 10)"
      by (subst (asm) str_nat.simps) auto
    then show ?thesis
      using "1.IH" False d by auto
  qed
qed

lemma str_int_no_dot: "CHR ''.'' \<notin> set (str_int i)"
  using str_nat_digits [of "CHR ''.''"] by (auto simp: str_int_def digit_val_dot)

lemma py_int_str_int: "py_int (str_int i) = Some i"
proof (cases "i < 0")
  case True
  then show ?thesis
    by (simp add: py_int_def str_int_def str_nat_nonempty parse_digits_str_nat)
next
  case False
  obtain c cs where s: "str_nat (nat i) = c # cs"
    using str_nat_nonempty [of "nat i"] by (cases "str_nat (nat i)") auto
  then have "c \<in> set (str_nat (nat i))" by simp
  then have "digit_val c \<noteq> None" by (rule str_nat_digits)
  then have c: "c \<noteq> CHR ''-''" "c \<noteq> CHR ''+''"
    using digit_val_minus digit_val_plus by auto
  have "parse_digits 0 (c # cs) = Some (nat i)"
    using parse_digits_str_nat [of "nat i"] s by simp
  then show ?thesis
    using False s c by (simp add: py_int_def str_int_def)
qed

lemma str_int_inj: "str_int i = str_int j \<Longrightarrow> i = j"
  by (metis option.inject py_int_str_int)

lemma split_once_append:
  "CHR ''.'' \<notin> set a \<Longrightarrow> split_once (a @ CHR ''.'' # r) = Some (a, r)"
  by (induction a) auto

lemma split2_entry: "split2 (entry (s, d) v) = [str_int s, str_int d, v]"
  by (simp add: split2_def entry_def separator_def split_once_append str_int_no_dot)

lemma decode_entry_entry: "decode_entry (entry (s, d) v) = Some (s, d, v)"
  by (simp add: decode_entry_def split2_entry py_int_str_int)

lemma wf_entry_entry: "wf_entry (entry (s, d) v)"
  by (simp add: wf_entry_def decode_entry_entry)

lemma wf_entryE: "wf_entry e \<Longrightarrow> \<exists>s d v. e = entry (s, d) v"
  by (auto simp: wf_entry_def split: option.splits)

lemma prefix_dot:
  "CHR ''.'' \<notin> set a \<Longrightarrow> CHR ''.'' \<notin> set b \<Longrightarrow>
   prefix (a @ CHR ''.'' # x) (b @ CHR ''.'' # y) \<longleftrightarrow> a = b \<and> prefix x y"
proof (induction a arbitrary: b)
  case Nil
  then show ?case by (cases b) auto
next
  case (Cons c a)
  then show ?case by (cases b) auto
qed

lemma startswith_source:
  "startswith (entry (s, d) v) (str_int i @ separator) \<longleftrightarrow> s = i"
  using prefix_dot [of "str_int i" "str_int s" "[]" "str_int d @ separator @ v"]
  by (auto simp: startswith_def entry_def separator_def str_int_no_dot dest: str_int_inj)

lemma startswith_key:
  "startswith (entry (s, d) v) (str_int i @ separator @ str_int j @ separator) \<longleftrightarrow> s = i \<and> d = j"
  using prefix_dot [of "str_int i" "str_int s" "str_int j @ ''.''" "str_int d @ ''.'' @ v"]
    prefix_dot [of "str_int j" "str_int d" "[]" v]
  by (auto simp: startswith_def entry_def separator_def str_int_no_dot dest: str_int_inj)

section \<open>Binary search and sorted insertion\<close>

lemma bisearch_loop_result:
  "0 \<le> low \<Longrightarrow> high < int (length arr) \<Longrightarrow>
   bisearch_loop arr t low high = length arr \<or>
   (bisearch_loop arr t low high < length arr \<and> startswith (arr ! bisearch_loop arr t low high) t)"
proof (induction arr t low high rule: bisearch_loop.induct)
  case (1 arr target low high)
  show ?case
  proof (cases "high \<ge> low")
    case False
    then show ?thesis by (subst bisearch_loop.simps, subst (2) bisearch_loop.simps, subst (3) bisearch_loop.simps) simp
  next
    case True
    define ix where "ix = (low + high) div 2"
    have ix: "low \<le> ix" "ix \<le> high" using True by (auto simp: ix_def)
    then have r: "nat ix < length arr" using "1.prems" by auto
    show ?thesis
    proof (cases "startswith (arr ! nat ix) target")
      case hit: True
      have "bisearch_loop arr target low high = nat ix"
        using True hit by (subst bisearch_loop.simps) (simp add: ix_def Let_def)
      then show ?thesis using hit r by simp
    next
      case miss: False
      show ?thesis
      proof (cases "target < arr ! nat ix")
        case lt: True
        have e: "bisearch_loop arr target low high = bisearch_loop arr target low (ix - 1)"
          using True miss lt by (subst bisearch_loop.simps) (simp add: ix_def Let_def)
        have "bisearch_loop arr target low (ix - 1) = length arr \<or>
          (bisearch_loop arr target low (ix - 1) < length arr \<and>
           startswith (arr ! bisearch_loop arr target low (ix - 1)) target)"
          using "1.IH"(1) [OF True ix_def miss lt] "1.prems" ix by simp
        then show ?thesis using e by simp
      next
        case ge: False
        have e: "bisearch_loop arr target low high = bisearch_loop arr target (ix + 1) high"
          using True miss ge by (subst bisearch_loop.simps) (simp add: ix_def Let_def)
        have "bisearch_loop arr target (ix + 1) high = length arr \<or>
          (bisearch_loop arr target (ix + 1) high < length arr \<and>
           startswith (arr ! bisearch_loop arr target (ix + 1) high) target)"
          using "1.IH"(2) [OF True ix_def miss ge] "1.prems" ix by simp
        then show ?thesis using e by simp
      qed
    qed
  qed
qed

lemma bisearch_result:
  "bisearch arr t = length arr \<or> (bisearch arr t < length arr \<and> startswith (arr ! bisearch arr t) t)"
  unfolding bisearch_def by (rule bisearch_loop_result) auto

lemma bisearch_none:
  "\<forall>e \<in> set arr. \<not> startswith e t \<Longrightarrow> bisearch arr t = length arr"
  using bisearch_result [of arr t] by auto

lemma bisect_right_bounds:
  "lo \<le> hi \<Longrightarrow> lo \<le> bisect_right a x lo hi \<and> bisect_right a x lo hi \<le> hi"
proof (induction a x lo hi rule: bisect_right.induct)
  case (1 a x lo hi)
  show ?case
  proof (cases "lo < hi")
    case False
    then show ?thesis using "1.prems" by (subst bisect_right.simps, subst (2) bisect_right.simps) simp
  next
    case True
    define mid where "mid = (lo + hi) div 2"
    have m: "lo \<le> mid" "mid < hi" using True by (auto simp: mid_def)
    show ?thesis
    proof (cases "x < a ! mid")
      case lt: True
      have e: "bisect_right a x lo hi = bisect_right a x lo mid"
        using True lt by (subst bisect_right.simps) (simp add: mid_def Let_def)
      show ?thesis using "1.IH"(1) [OF True mid_def lt] m e by simp
    next
      case ge: False
      have e: "bisect_right a x lo hi = bisect_right a x (mid + 1) hi"
        using True ge by (subst bisect_right.simps) (simp add: mid_def Let_def)
      show ?thesis using "1.IH"(2) [OF True mid_def ge] m e by simp
    qed
  qed
qed

lemma set_take_drop: "set (take n a) \<union> set (drop n a) = set a"
  using set_append [of "take n a" "drop n a"] by simp

lemma set_insort_right: "set (insort_right a x) = insert x (set a)"
  by (simp add: insort_right_def Let_def set_take_drop)

lemma set_edge_pairs:
  "set (edge_pairs m) = {(s, d). \<exists>e v. e \<in> set m \<and> decode_entry e = Some (s, d, v)}"
proof -
  have "\<And>s d. (s, d) \<in> set (edge_pairs m) \<longleftrightarrow> (\<exists>e v. e \<in> set m \<and> decode_entry e = Some (s, d, v))"
    by (force simp: edge_pairs_def map_filter_def image_iff)
  then show ?thesis by auto
qed

lemma set_edge_pairs_wf:
  assumes "\<forall>e \<in> set m. wf_entry e"
  shows "set (edge_pairs m) = {(s, d). \<exists>v. entry (s, d) v \<in> set m}"
proof -
  have "\<And>s d. (\<exists>e v. e \<in> set m \<and> decode_entry e = Some (s, d, v)) \<longleftrightarrow> (\<exists>v. entry (s, d) v \<in> set m)"
  proof
    fix s d
    assume "\<exists>e v. e \<in> set m \<and> decode_entry e = Some (s, d, v)"
    then obtain e v where e: "e \<in> set m" "decode_entry e = Some (s, d, v)" by blast
    with assms have "wf_entry e" by blast
    with e have "e = entry (s, d) v" by (simp add: wf_entry_def)
    with e show "\<exists>v. entry (s, d) v \<in> set m" by blast
  next
    fix s d
    assume "\<exists>v. entry (s, d) v \<in> set m"
    then show "\<exists>e v. e \<in> set m \<and> decode_entry e = Some (s, d, v)"
      using decode_entry_entry by blast
  qed
  then show ?thesis unfolding set_edge_pairs by simp
qed

section \<open>The pairs held by the matrix\<close>

lemma wf_entry_key: "wf_entry (entry k v)"
  using wf_entry_entry [of "fst k" "snd k" v] by simp

lemma in_set_update_cases: "e \<in> set m \<Longrightarrow> e \<in> set (m[i := x]) \<or> e = m ! i"
proof -
  assume "e \<in> set m"
  then obtain j where j: "j < length m" "e = m ! j" by (auto simp: in_set_conv_nth)
  show ?thesis
  proof (cases "j = i")
    case True
    with j show ?thesis by simp
  next
    case False
    with j have "m[i := x] ! j = e" by simp
    moreover have "j < length (m[i := x])" using j by simp
    ultimately show ?thesis using nth_mem by metis
  qed
qed

lemma setitem_subset: "set (setitem m k v) \<subseteq> insert (entry k v) (set m)"
  using set_update_subset_insert [of m _ "entry k v"]
  by (auto simp: setitem_def set_insort_right split: option.splits)

lemma setitem_wf:
  "\<forall>e \<in> set m. wf_entry e \<Longrightarrow> \<forall>e \<in> set (setitem m k v). wf_entry e"
  using setitem_subset [of m k v] wf_entry_key [of k v] by auto

lemma find_index_Some:
  assumes "find_index m k = Some idx" and wf: "\<forall>e \<in> set m. wf_entry e"
  shows "idx < length m \<and> (\<exists>v. m ! idx = entry k v)"
proof -
  let ?t = "str_int (fst k) @ separator @ str_int (snd k) @ separator"
  from assms(1) have i: "idx = bisearch m ?t" "bisearch m ?t \<noteq> length m"
    by (auto simp: find_index_def find_index_in_def Let_def split: if_splits)
  with bisearch_result [of m ?t] have lt: "idx < length m" and sw: "startswith (m ! idx) ?t"
    by auto
  from lt wf have "wf_entry (m ! idx)" by simp
  then obtain s d v where e: "m ! idx = entry (s, d) v" using wf_entryE by blast
  with sw have "s = fst k \<and> d = snd k" by (simp add: startswith_key)
  with e have "m ! idx = entry k v" by simp
  with lt show ?thesis by blast
qed

lemma setitem_pairs:
  assumes wf: "\<forall>e \<in> set m. wf_entry e"
  shows "set (edge_pairs (setitem m k v)) = insert k (set (edge_pairs m))"
proof (cases "find_index m k")
  case None
  then have s: "set (setitem m k v) = insert (entry k v) (set m)"
    by (simp add: setitem_def set_insort_right)
  have wf': "\<forall>e \<in> set (setitem m k v). wf_entry e" using wf by (rule setitem_wf)
  have "entry k v = entry (fst k, snd k) v" by simp
  then have inj: "\<And>s d w. entry (s, d) w = entry k v \<Longrightarrow> (s, d) = k"
    by (metis decode_entry_entry option.inject prod.collapse prod.inject)
  show ?thesis
    unfolding set_edge_pairs_wf [OF wf] set_edge_pairs_wf [OF wf'] s
    using inj by (cases k) auto
next
  case (Some idx)
  from find_index_Some [OF Some wf] obtain v0 where lt: "idx < length m" and old: "m ! idx = entry k v0"
    by blast
  have s: "setitem m k v = m[idx := entry k v]" using Some by (simp add: setitem_def)
  have wf': "\<forall>e \<in> set (m[idx := entry k v]). wf_entry e"
    using setitem_wf [OF wf, of k v] s by simp
  have new_in: "entry k v \<in> set (m[idx := entry k v])" using lt by (rule set_update_memI)
  have old_in: "entry k v0 \<in> set m" using lt old nth_mem by metis
  have sub: "set (m[idx := entry k v]) \<subseteq> insert (entry k v) (set m)"
    by (rule set_update_subset_insert)
  have inj: "\<And>s d w w'. entry (s, d) w = entry k w' \<Longrightarrow> (s, d) = k"
    by (metis decode_entry_entry option.inject prod.collapse prod.inject)
  have "\<And>s d. (\<exists>w. entry (s, d) w \<in> set (m[idx := entry k v])) \<longleftrightarrow>
          (s, d) = k \<or> (\<exists>w. entry (s, d) w \<in> set m)"
  proof
    fix s d
    assume "\<exists>w. entry (s, d) w \<in> set (m[idx := entry k v])"
    then obtain w where "entry (s, d) w \<in> set (m[idx := entry k v])" by blast
    with sub have "entry (s, d) w = entry k v \<or> entry (s, d) w \<in> set m" by auto
    then show "(s, d) = k \<or> (\<exists>w. entry (s, d) w \<in> set m)" using inj by blast
  next
    fix s d
    assume a: "(s, d) = k \<or> (\<exists>w. entry (s, d) w \<in> set m)"
    show "\<exists>w. entry (s, d) w \<in> set (m[idx := entry k v])"
    proof (cases "(s, d) = k")
      case True
      with new_in show ?thesis by blast
    next
      case False
      with a obtain w where w: "entry (s, d) w \<in> set m" by blast
      from in_set_update_cases [OF w, of idx "entry k v"] old inj False
      show ?thesis by metis
    qed
  qed
  then show ?thesis
    unfolding s set_edge_pairs_wf [OF wf] set_edge_pairs_wf [OF wf'] using old_in
    by (cases k) auto
qed

lemma has_source_entry: "has_source i (entry (s, d) v) \<longleftrightarrow> s = i"
  by (simp add: has_source_def decode_entry_entry)

lemma has_destination_entry: "has_destination i (entry (s, d) v) \<longleftrightarrow> d = i"
  by (simp add: has_destination_def decode_entry_entry)

lemma foldl_source_pairs:
  "\<forall>e \<in> set acc. wf_entry e \<Longrightarrow> \<forall>e \<in> set es. wf_entry e \<Longrightarrow>
   (\<forall>e \<in> set (foldl (\<lambda>acc e. case decode_entry e of None \<Rightarrow> acc
                                  | Some (s, d, v) \<Rightarrow> setitem acc (p, d) v) acc es). wf_entry e)
   \<and> set (edge_pairs (foldl (\<lambda>acc e. case decode_entry e of None \<Rightarrow> acc
                                  | Some (s, d, v) \<Rightarrow> setitem acc (p, d) v) acc es))
     = set (edge_pairs acc) \<union> (\<lambda>k. (p, snd k)) ` set (edge_pairs es)"
proof (induction es arbitrary: acc)
  case Nil
  then show ?case by (simp add: edge_pairs_def map_filter_simps)
next
  case (Cons e es)
  from Cons.prems(2) have "wf_entry e" by simp
  then obtain s d v where e: "e = entry (s, d) v" using wf_entryE by blast
  have wf1: "\<forall>x \<in> set (setitem acc (p, d) v). wf_entry x"
    using Cons.prems(1) by (rule setitem_wf)
  have wfes: "\<forall>x \<in> set es. wf_entry x" using Cons.prems(2) by simp
  have p1: "set (edge_pairs (setitem acc (p, d) v)) = insert (p, d) (set (edge_pairs acc))"
    using Cons.prems(1) by (rule setitem_pairs)
  have pe: "set (edge_pairs (e # es)) = insert (s, d) (set (edge_pairs es))"
    by (simp add: edge_pairs_def map_filter_simps e decode_entry_entry)
  show ?case
    using Cons.IH [OF wf1 wfes] p1 pe
    by (simp add: e decode_entry_entry)
qed

lemma foldl_destination_pairs:
  "\<forall>e \<in> set acc. wf_entry e \<Longrightarrow> \<forall>e \<in> set es. wf_entry e \<Longrightarrow>
   (\<forall>e \<in> set (foldl (\<lambda>acc e. case decode_entry e of None \<Rightarrow> acc
                                  | Some (s, d, v) \<Rightarrow> setitem acc (s, c) v) acc es). wf_entry e)
   \<and> set (edge_pairs (foldl (\<lambda>acc e. case decode_entry e of None \<Rightarrow> acc
                                  | Some (s, d, v) \<Rightarrow> setitem acc (s, c) v) acc es))
     = set (edge_pairs acc) \<union> (\<lambda>k. (fst k, c)) ` set (edge_pairs es)"
proof (induction es arbitrary: acc)
  case Nil
  then show ?case by (simp add: edge_pairs_def map_filter_simps)
next
  case (Cons e es)
  from Cons.prems(2) have "wf_entry e" by simp
  then obtain s d v where e: "e = entry (s, d) v" using wf_entryE by blast
  have wf1: "\<forall>x \<in> set (setitem acc (s, c) v). wf_entry x"
    using Cons.prems(1) by (rule setitem_wf)
  have wfes: "\<forall>x \<in> set es. wf_entry x" using Cons.prems(2) by simp
  have p1: "set (edge_pairs (setitem acc (s, c) v)) = insert (s, c) (set (edge_pairs acc))"
    using Cons.prems(1) by (rule setitem_pairs)
  have pe: "set (edge_pairs (e # es)) = insert (s, d) (set (edge_pairs es))"
    by (simp add: edge_pairs_def map_filter_simps e decode_entry_entry)
  show ?case
    using Cons.IH [OF wf1 wfes] p1 pe
    by (simp add: e decode_entry_entry)
qed

lemma pairs_filter:
  assumes wf: "\<forall>e \<in> set m. wf_entry e"
    and P: "\<And>s d v. P (entry (s, d) v) \<longleftrightarrow> Q (s, d)"
  shows "set (edge_pairs (filter P m)) = {k \<in> set (edge_pairs m). Q k}"
proof -
  have wf': "\<forall>e \<in> set (filter P m). wf_entry e" using wf by simp
  show ?thesis
    unfolding set_edge_pairs_wf [OF wf] set_edge_pairs_wf [OF wf']
    using P by auto
qed

lemma split_image:
  assumes "\<And>k. \<not> P k \<Longrightarrow> f k = k" and "\<And>k. P k \<Longrightarrow> f k = g k"
  shows "{k \<in> S. \<not> P k} \<union> g ` {k \<in> S. P k} = f ` S"
proof -
  have "f ` S = f ` {k \<in> S. \<not> P k} \<union> f ` {k \<in> S. P k}"
    by blast
  moreover have "f ` {k \<in> S. \<not> P k} = {k \<in> S. \<not> P k}"
    using assms(1) by force
  moreover have "f ` {k \<in> S. P k} = g ` {k \<in> S. P k}"
    using assms(2) by force
  ultimately show ?thesis by simp
qed

lemma change_parent_of_children_pairs:
  assumes wf: "\<forall>e \<in> set m. wf_entry e"
  shows "(\<forall>e \<in> set (change_parent_of_children m p old). wf_entry e)
    \<and> set (edge_pairs (change_parent_of_children m p old))
      = (\<lambda>k. (redirect old p (fst k), snd k)) ` set (edge_pairs m)"
proof -
  let ?kept = "filter (\<lambda>e. \<not> has_source old e) m"
  let ?moved = "filter (has_source old) m"
  have wfk: "\<forall>e \<in> set ?kept. wf_entry e" and wfm: "\<forall>e \<in> set ?moved. wf_entry e"
    using wf by simp_all
  have pk: "set (edge_pairs ?kept) = {k \<in> set (edge_pairs m). \<not> fst k = old}"
    using wf by (rule pairs_filter) (simp add: has_source_entry)
  have pm: "set (edge_pairs ?moved) = {k \<in> set (edge_pairs m). fst k = old}"
    using wf by (rule pairs_filter) (simp add: has_source_entry)
  have "{k \<in> set (edge_pairs m). \<not> fst k = old} \<union> (\<lambda>k. (p, snd k)) ` {k \<in> set (edge_pairs m). fst k = old}
      = (\<lambda>k. (redirect old p (fst k), snd k)) ` set (edge_pairs m)"
    by (rule split_image) (simp_all add: redirect_def)
  then have img: "set (edge_pairs ?kept) \<union> (\<lambda>k. (p, snd k)) ` set (edge_pairs ?moved)
      = (\<lambda>k. (redirect old p (fst k), snd k)) ` set (edge_pairs m)"
    by (simp only: pk pm)
  note f = foldl_source_pairs [OF wfk wfm, of p]
  show ?thesis
    unfolding change_parent_of_children_def
    using conjunct1 [OF f] trans [OF conjunct2 [OF f] img] by blast
qed

lemma change_children_of_parents_pairs:
  assumes wf: "\<forall>e \<in> set m. wf_entry e"
  shows "(\<forall>e \<in> set (change_children_of_parents m old c). wf_entry e)
    \<and> set (edge_pairs (change_children_of_parents m old c))
      = (\<lambda>k. (fst k, redirect old c (snd k))) ` set (edge_pairs m)"
proof -
  let ?kept = "filter (\<lambda>e. \<not> has_destination old e) m"
  let ?moved = "filter (has_destination old) m"
  have wfk: "\<forall>e \<in> set ?kept. wf_entry e" and wfm: "\<forall>e \<in> set ?moved. wf_entry e"
    using wf by simp_all
  have pk: "set (edge_pairs ?kept) = {k \<in> set (edge_pairs m). \<not> snd k = old}"
    using wf by (rule pairs_filter) (simp add: has_destination_entry)
  have pm: "set (edge_pairs ?moved) = {k \<in> set (edge_pairs m). snd k = old}"
    using wf by (rule pairs_filter) (simp add: has_destination_entry)
  have "{k \<in> set (edge_pairs m). \<not> snd k = old} \<union> (\<lambda>k. (fst k, c)) ` {k \<in> set (edge_pairs m). snd k = old}
      = (\<lambda>k. (fst k, redirect old c (snd k))) ` set (edge_pairs m)"
    by (rule split_image) (simp_all add: redirect_def)
  then have img: "set (edge_pairs ?kept) \<union> (\<lambda>k. (fst k, c)) ` set (edge_pairs ?moved)
      = (\<lambda>k. (fst k, redirect old c (snd k))) ` set (edge_pairs m)"
    by (simp only: pk pm)
  note f = foldl_destination_pairs [OF wfk wfm, of c]
  show ?thesis
    unfolding change_children_of_parents_def
    using conjunct1 [OF f] trans [OF conjunct2 [OF f] img] by blast
qed

lemma merge_rewrites_pairs:
  assumes wf: "\<forall>e \<in> set m. wf_entry e"
  shows "(\<forall>e \<in> set (change_children_of_parents (change_parent_of_children m i1 i2) i2 i1). wf_entry e)
    \<and> set (edge_pairs (change_children_of_parents (change_parent_of_children m i1 i2) i2 i1))
      = (\<lambda>k. (redirect i2 i1 (fst k), redirect i2 i1 (snd k))) ` set (edge_pairs m)"
proof -
  note a = change_parent_of_children_pairs [OF wf, of i1 i2]
  note b = change_children_of_parents_pairs [OF conjunct1 [OF a], of i2 i1]
  show ?thesis
    using a b by (simp add: image_image)
qed

section \<open>Properties of the sparse matrix\<close>

lemma getitem_raises: "getitem m key = Inl TypeError"
  by (simp add: getitem_def find_edge_def)

lemma setitem_1_2: "setitem [] (1, 2) ''5'' = [''1.2.5'']"
  by code_simp

lemma setitem_1_23: "setitem [] (1, 23) ''5'' = [''1.23.5'']"
  by code_simp

lemma contains_1_2: "contains [''1.2.5''] (1, 2) = True"
  by code_simp

lemma contains_1_2_in_1_23: "contains [''1.23.5''] (1, 2) = True"
  by code_simp

lemma find_index_1_2_in_1_23: "find_index [''1.23.5''] (1, 2) = None"
  by code_simp

lemma find_children_1_in_1_23: "find_children [''1.23.5''] 1 = Inr (Some [(23, ''5'')])"
  by code_simp

text \<open>
  Claim C5 (adjacency index round-trip; \<open>contains\<close> true exactly when \<open>get\<close> succeeds).
  The code at two inputs. After the single write \<open>m[1, 2] = 5\<close> the pair \<open>(1, 2)\<close> is
  contained, yet \<open>m[1, 2]\<close> raises \<open>TypeError\<close> instead of returning the payload. After the
  single write \<open>m[1, 23] = 5\<close> the pair \<open>(1, 2)\<close>, which was never set and which no entry
  of the list carries, is reported as contained, while the children of \<open>1\<close> are exactly
  the destination \<open>23\<close>.
\<close>

theorem contains_disagrees_with_get:
  "contains (setitem [] (1, 2) ''5'') (1, 2)
   \<and> getitem (setitem [] (1, 2) ''5'') (1, 2) = Inl TypeError
   \<and> contains (setitem [] (1, 23) ''5'') (1, 2)
   \<and> find_index (setitem [] (1, 23) ''5'') (1, 2) = None
   \<and> find_children (setitem [] (1, 23) ''5'') 1 = Inr (Some [(23, ''5'')])"
  by (simp add: getitem_raises setitem_1_2 setitem_1_23 contains_1_2 contains_1_2_in_1_23
      find_index_1_2_in_1_23 find_children_1_in_1_23)

section \<open>Properties of the graph operations at concrete graphs\<close>

lemmas graph_ops_defs =
  add_state_def merge_states_def new_graph_def graph_contains_def intern_def Let_def hpA_def
  change_parent_of_children_def change_children_of_parents_def get_state_by_id_def

text \<open>
  Claim C2 (state indices are never reused). The code on the run
  \<open>add_state(s0); add_state(s1); add_state(s2); merge_states(s0, s1); add_state(s3)\<close>:
  the merge retires index \<open>1\<close>, two states remain, and \<open>add_state\<close> takes
  \<open>len(self.states) = 2\<close> as the index of \<open>s3\<close>, the index that \<open>s2\<close> holds. The entry of
  \<open>s2\<close> in \<open>states\<close> is overwritten, both identities map to index \<open>2\<close>, and looking up
  \<open>s2\<close> by identity yields \<open>s3\<close>.
\<close>

theorem add_state_reuses_live_index:
  "\<exists>w3 w4 w5.
     add_states id (hpA, new_graph Some None) [0, 1, 2] = Inr w3
     \<and> merge_states id w3 0 1 = Inr w4
     \<and> add_state id w4 3 = Inr w5
     \<and> states (snd w4) 2 = Some 2
     \<and> states (snd w5) 2 = Some 3
     \<and> state_indices_by_id (snd w5) 2 = Some 2
     \<and> state_indices_by_id (snd w5) 3 = Some 2
     \<and> get_state_by_id (snd w5) 2 = Inr 3"
  by (simp add: graph_ops_defs)

lemma setitem_0_10: "setitem [] (0, 10) ''1'' = [''0.10.1'']"
  by code_simp

lemma contains_empty_0_10: "contains [] (0, 10) = False"
  by code_simp

lemma contains_0_1_in_0_10: "contains [''0.10.1''] (0, 1) = True"
  by code_simp

lemma find_index_0_1_in_0_10: "find_index [''0.10.1''] (0, 1) = None"
  by code_simp

lemma eleven_states:
  "\<exists>hp g. add_states id (hpA, new_graph Some None) [0, 1, 2, 3, 4, 5, 6, 7, 8, 9, 10] = Inr (hp, g)
     \<and> edges g = []
     \<and> state_indices_by_id g 0 = Some 0
     \<and> state_indices_by_id g 1 = Some 1
     \<and> state_indices_by_id g 10 = Some 10"
  by (simp add: graph_ops_defs)

text \<open>
  Claim C6 (\<open>add_edge\<close> fails exactly when an endpoint is unknown or the pair exists).
  The code on a graph of eleven states \<open>s0 .. s10\<close>: \<open>add_edge(s0, s10, "1")\<close> succeeds
  and writes the entry \<open>0.10.1\<close>; then \<open>add_edge(s0, s1, "1")\<close> returns \<open>False\<close> and
  writes nothing, although both states are known and no entry for the pair \<open>(0, 1)\<close>
  exists (\<open>find_index\<close> finds none).
\<close>

theorem add_edge_refuses_absent_pair:
  "\<exists>w g.
     add_states id (hpA, new_graph Some None) [0, 1, 2, 3, 4, 5, 6, 7, 8, 9, 10] = Inr w
     \<and> add_edge (snd w) 0 10 ''1'' = (g, True)
     \<and> edges g = [''0.10.1'']
     \<and> graph_contains g 0 \<and> graph_contains g 1
     \<and> find_index (edges g) (0, 1) = None
     \<and> add_edge g 0 1 ''1'' = (g, False)"
proof -
  from eleven_states obtain hp g where
    run: "add_states id (hpA, new_graph Some None) [0, 1, 2, 3, 4, 5, 6, 7, 8, 9, 10] = Inr (hp, g)"
    and e: "edges g = []"
    and i: "state_indices_by_id g 0 = Some 0" "state_indices_by_id g 1 = Some 1"
      "state_indices_by_id g 10 = Some 10"
    by blast
  show ?thesis
    using run e i
    by (simp add: add_edge_def graph_contains_def setitem_0_10 contains_empty_0_10
        contains_0_1_in_0_10 find_index_0_1_in_0_10)
qed

lemma setitem_0_1: "setitem [] (0, 1) ''1'' = [''0.1.1'']"
  by code_simp

lemma contains_empty_0_1: "contains [] (0, 1) = False"
  by code_simp

lemma contains_0_1: "contains [''0.1.1''] (0, 1) = True"
  by code_simp

lemma two_states:
  "\<exists>hp g. add_states id (hpA, new_graph Some None) [0, 1] = Inr (hp, g)
     \<and> edges g = []
     \<and> state_indices_by_id g 0 = Some 0
     \<and> state_indices_by_id g 1 = Some 1"
  by (simp add: graph_ops_defs)

text \<open>
  Claim C7 (\<open>update_edge\<close> increments the count of an existing edge and returns success).
  The code on a graph of two states with the edge \<open>s0 \<rightarrow> s1\<close> of payload \<open>1\<close>:
  \<open>update_edge(s0, s1, 1)\<close> raises \<open>TypeError\<close>; it neither returns \<open>True\<close> nor writes
  the count \<open>2\<close>.
\<close>

theorem update_edge_raises_on_existing_edge:
  "\<exists>w g.
     add_states id (hpA, new_graph Some None) [0, 1] = Inr w
     \<and> add_edge (snd w) 0 1 ''1'' = (g, True)
     \<and> edges g = [''0.1.1'']
     \<and> update_edge g 0 1 1 = Inl TypeError"
proof -
  from two_states obtain hp g where
    run: "add_states id (hpA, new_graph Some None) [0, 1] = Inr (hp, g)"
    and e: "edges g = []"
    and i: "state_indices_by_id g 0 = Some 0" "state_indices_by_id g 1 = Some 1"
    by blast
  show ?thesis
    using run e i
    by (simp add: add_edge_def update_edge_def setitem_0_1 contains_empty_0_1 contains_0_1
        getitem_raises)
qed

section \<open>Merging states\<close>

lemma intern_graph:
  "edges (snd (intern h (hp, g) s)) = edges g"
  "states (snd (intern h (hp, g) s)) = states g"
  "state_indices_by_id (snd (intern h (hp, g) s)) = state_indices_by_id g"
  "start_node (snd (intern h (hp, g) s)) = start_node g"
  by (simp_all add: intern_def Let_def split: option.splits)

lemma intern_templates:
  "no_collision h g (log_templates (hp s)) \<Longrightarrow>
   set (log_templates (fst (intern h (hp, g) s) s)) = set (log_templates (hp s))"
  by (auto simp: intern_def Let_def no_collision_def split: option.splits)

lemma intern_is_terminal:
  "is_terminal (fst (intern h (hp, g) s) r) = is_terminal (hp r)"
  by (simp add: intern_def Let_def split: option.splits)

lemma card_dom_delete:
  "finite (dom m) \<Longrightarrow> m k \<noteq> None \<Longrightarrow> card (dom (m(k := None))) + 1 = card (dom m)"
proof -
  assume f: "finite (dom m)" and k: "m k \<noteq> None"
  then have "k \<in> dom m" by auto
  with f have "card (dom m - {k}) + 1 = card (dom m)"
    by (metis Suc_eq_plus1 card_Suc_Diff1)
  then show ?thesis by simp
qed

lemma intern_heap_other:
  "r \<noteq> s \<Longrightarrow> fst (intern h (hp, g) s) r = hp r"
  by (simp add: intern_def Let_def split: option.splits)

text \<open>
  Claim C1, as amended (the \<open>merge_states\<close> invariant). For a well-formed graph whose
  interning table has no collision for the merged template list, and two distinct
  states \<open>state1\<close>, \<open>state2\<close> of it, with indices \<open>i1\<close> and \<open>i2\<close>, the call
  \<open>merge_states(state1, state2)\<close> returns normally, and afterwards: (1) \<open>state2\<close> is not
  retrievable by identity, \<open>state1\<close> still is, and the two mappings have lost exactly
  the entries of \<open>state2\<close>; (2) the pairs of the edges are exactly the former pairs with
  \<open>i2\<close> renamed to \<open>i1\<close> in both positions, all entries are well formed and none
  mentions \<open>i2\<close>; (3) the templates of \<open>state1\<close> are the former templates of both
  states; (4) \<open>state1\<close> is terminal exactly if either state was; (5) the size of the
  graph has decreased by exactly one. Moreover no other state object is written, the start
  node is \<open>state1\<close> if it was \<open>state2\<close> and is unchanged otherwise, and the graph is
  still well formed. Part (2) rests on the two rewrites of the adjacency index, which are
  modelled from the spec.
\<close>

theorem merge_states_invariant:
  assumes wf: "well_formed g"
    and tab: "no_collision h g (merged_templates hp state1 state2)"
    and ne: "state1 \<noteq> state2"
    and i1: "state_indices_by_id g state1 = Some i1"
    and i2: "state_indices_by_id g state2 = Some i2"
  shows "\<exists>hp' g'.
      merge_states h (hp, g) state1 state2 = Inr (hp', g')
      \<and> get_state_by_id g' state2 = Inl StateDoesNotExistException
      \<and> get_state_by_id g' state1 = Inr state1
      \<and> state_indices_by_id g' = (state_indices_by_id g)(state2 := None)
      \<and> states g' = (states g)(i2 := None)
      \<and> set (edge_pairs (edges g'))
          = (\<lambda>k. (redirect i2 i1 (fst k), redirect i2 i1 (snd k))) ` set (edge_pairs (edges g))
      \<and> (\<forall>e \<in> set (edges g'). wf_entry e)
      \<and> (\<forall>k \<in> set (edge_pairs (edges g')). fst k \<noteq> i2 \<and> snd k \<noteq> i2)
      \<and> set (log_templates (hp' state1))
          = set (log_templates (hp state1)) \<union> set (log_templates (hp state2))
      \<and> (is_terminal (hp' state1) \<longleftrightarrow> is_terminal (hp state1) \<or> is_terminal (hp state2))
      \<and> (\<forall>r. r \<noteq> state1 \<longrightarrow> hp' r = hp r)
      \<and> start_node g' = (if start_node g = Some state2 then Some state1 else start_node g)
      \<and> graph_size g' + 1 = graph_size g
      \<and> well_formed g'"
proof -
  define props where "props = log_templates (hp state1) @
      filter (\<lambda>temp. temp \<notin> set (log_templates (hp state1))) (log_templates (hp state2))"
  define hp1 where "hp1 = hp(state1 := (hp state1)\<lparr>log_templates := props\<rparr>)"
  define hp2 where "hp2 = (if is_terminal (hp1 state2)
      then hp1(state1 := (hp1 state1)\<lparr>is_terminal := True\<rparr>) else hp1)"
  define g1 where "g1 = (if start_node g = Some state2 then g\<lparr>start_node := Some state1\<rparr> else g)"
  define w3 where "w3 = intern h (hp2, g1) state1"
  define es where "es = change_children_of_parents (change_parent_of_children (edges g) i1 i2) i2 i1"
  define g7 where "g7 = (snd w3)\<lparr>edges := es, states := (states g)(i2 := None),
      state_indices_by_id := (state_indices_by_id g)(state2 := None)\<rparr>"
  from wf have fin: "finite (dom (states g))"
    and idx: "\<forall>r i. state_indices_by_id g r = Some i \<longrightarrow> states g i = Some r"
    and wfe: "\<forall>e \<in> set (edges g). wf_entry e"
    by (simp_all add: well_formed_def)
  have g1_fields: "edges g1 = edges g" "states g1 = states g"
    "state_indices_by_id g1 = state_indices_by_id g" "prop_by_hash g1 = prop_by_hash g"
    by (simp_all add: g1_def)
  have g3: "edges (snd w3) = edges g" "states (snd w3) = states g"
    "state_indices_by_id (snd w3) = state_indices_by_id g"
    using intern_graph [of h hp2 g1 state1] by (simp_all add: w3_def g1_fields)
  have sn3: "start_node (snd w3) = start_node g1"
    unfolding w3_def by (rule intern_graph)
  have t1: "log_templates (hp2 state1) = props"
    by (simp add: hp2_def hp1_def)
  have pm: "merged_templates hp state1 state2 = props"
    by (simp only: props_def merged_templates_def)
  have "no_collision h g1 props"
    using tab by (simp only: no_collision_def pm g1_fields)
  then have "no_collision h g1 (log_templates (hp2 state1))"
    by (simp only: t1)
  then have "set (log_templates (fst (intern h (hp2, g1) state1) state1))
      = set (log_templates (hp2 state1))"
    by (rule intern_templates)
  then have hp3: "set (log_templates (fst w3 state1)) = set props"
    by (simp only: w3_def t1)
  have term3: "is_terminal (fst w3 state1) = is_terminal (hp2 state1)"
    unfolding w3_def by (rule intern_is_terminal)
  from idx i1 i2 have s1: "states g i1 = Some state1" and s2: "states g i2 = Some state2"
    by simp_all
  with ne have ine: "i1 \<noteq> i2" by auto
  have run: "merge_states h (hp, g) state1 state2 = Inr (fst w3, g7)"
    unfolding merge_states_def g7_def es_def w3_def g1_def hp2_def hp1_def props_def
    by (simp add: Let_def intern_graph i1 i2 s2)
  have e7: "edges g7 = es" and st7: "states g7 = (states g)(i2 := None)"
    and ix7: "state_indices_by_id g7 = (state_indices_by_id g)(state2 := None)"
    and sn7: "start_node g7 = start_node (snd w3)"
    by (simp_all add: g7_def)
  note rw = merge_rewrites_pairs [OF wfe, of i1 i2, folded es_def]
  have c1: "get_state_by_id g7 state2 = Inl StateDoesNotExistException"
    by (simp add: get_state_by_id_def ix7)
  have c1a: "get_state_by_id g7 state1 = Inr state1"
    using ne ine i1 s1 by (simp add: get_state_by_id_def ix7 st7)
  have c2: "set (edge_pairs (edges g7))
      = (\<lambda>k. (redirect i2 i1 (fst k), redirect i2 i1 (snd k))) ` set (edge_pairs (edges g))"
    using rw by (simp add: e7)
  have c2a: "\<forall>e \<in> set (edges g7). wf_entry e"
    using rw by (simp add: e7)
  have c2b: "\<forall>k \<in> set (edge_pairs (edges g7)). fst k \<noteq> i2 \<and> snd k \<noteq> i2"
    unfolding c2 using ine by (auto simp: redirect_def)
  have c3: "set (log_templates (fst w3 state1))
      = set (log_templates (hp state1)) \<union> set (log_templates (hp state2))"
    unfolding hp3 by (auto simp: props_def)
  have c4: "is_terminal (fst w3 state1) \<longleftrightarrow> is_terminal (hp state1) \<or> is_terminal (hp state2)"
    using ne by (auto simp: term3 hp2_def hp1_def)
  have c4a: "\<forall>r. r \<noteq> state1 \<longrightarrow> fst w3 r = hp r"
  proof (intro allI impI)
    fix r assume r: "r \<noteq> state1"
    then have "fst w3 r = hp2 r" unfolding w3_def by (rule intern_heap_other)
    also have "hp2 r = hp r" using r by (simp add: hp2_def hp1_def)
    finally show "fst w3 r = hp r" .
  qed
  have c4b: "start_node g7 = (if start_node g = Some state2 then Some state1 else start_node g)"
    by (simp add: sn7 sn3 g1_def)
  have c5: "graph_size g7 + 1 = graph_size g"
    unfolding graph_size_def st7 using fin s2 by (intro card_dom_delete) simp_all
  have c6: "well_formed g7"
    unfolding well_formed_def
  proof (intro conjI allI impI)
    show "finite (dom (states g7))" using fin by (simp add: st7)
    show "\<forall>e \<in> set (edges g7). wf_entry e" by (rule c2a)
  next
    fix r i assume a: "state_indices_by_id g7 r = Some i"
    then have r: "r \<noteq> state2" and ri: "state_indices_by_id g r = Some i"
      by (auto simp: ix7 split: if_splits)
    with idx have si: "states g i = Some r" by simp
    with s2 r have "i \<noteq> i2" by auto
    with si show "states g7 i = Some r" by (simp add: st7)
  qed
  show ?thesis
    using run c1 c1a ix7 st7 c2 c2a c2b c3 c4 c4a c4b c5 c6 by blast
qed

text \<open>
  Graphs built by \<open>add_state\<close> and \<open>add_edge\<close> are well formed: the new graph is,
  \<open>add_edge\<close> keeps a graph so, and \<open>add_state\<close> does as long as the index
  \<open>len(self.states)\<close> is not a key of \<open>states\<close>.
\<close>

lemma well_formed_new_graph: "well_formed (new_graph st sn)"
  by (simp add: well_formed_def new_graph_def)

lemma add_edge_well_formed: "well_formed g \<Longrightarrow> well_formed (fst (add_edge g a b props))"
  using setitem_wf [of "edges g"]
  by (auto simp: well_formed_def add_edge_def split: option.splits)

lemma add_state_well_formed:
  assumes wf: "well_formed g"
    and free: "states g (int (card (dom (states g)))) = None"
    and run: "add_state h (hp, g) s = Inr (hp', g')"
  shows "well_formed g'"
proof -
  define n where "n = int (card (dom (states g)))"
  define g2 where "g2 = g\<lparr>states := (states g)(n \<mapsto> s),
      state_indices_by_id := (state_indices_by_id g)(s \<mapsto> n)\<rparr>"
  from run have new: "state_indices_by_id g s = None" and g': "g' = snd (intern h (hp, g2) s)"
    by (auto simp: add_state_def Let_def graph_contains_def n_def g2_def split: if_splits)
  have f: "edges g' = edges g" "states g' = (states g)(n \<mapsto> s)"
    "state_indices_by_id g' = (state_indices_by_id g)(s \<mapsto> n)"
    unfolding g' by (simp_all add: intern_graph g2_def)
  from wf have fin: "finite (dom (states g))"
    and idx: "\<forall>r i. state_indices_by_id g r = Some i \<longrightarrow> states g i = Some r"
    and wfe: "\<forall>e \<in> set (edges g). wf_entry e"
    by (simp_all add: well_formed_def)
  show ?thesis
    unfolding well_formed_def f
  proof (intro conjI allI impI)
    show "finite (dom ((states g)(n \<mapsto> s)))" using fin by simp
    show "\<forall>e \<in> set (edges g). wf_entry e" by (rule wfe)
  next
    fix r i assume a: "((state_indices_by_id g)(s \<mapsto> n)) r = Some i"
    show "((states g)(n \<mapsto> s)) i = Some r"
    proof (cases "r = s")
      case True
      with a show ?thesis by simp
    next
      case False
      with a idx have si: "states g i = Some r" by simp
      with free have "i \<noteq> n" by (auto simp: n_def)
      with si show ?thesis by simp
    qed
  qed
qed

section \<open>Neighbour queries\<close>

lemma entry_inj: "entry (s, d) v = entry (s', d') v' \<longleftrightarrow> s = s' \<and> d = d' \<and> v = v'"
  by (metis decode_entry_entry option.inject prod.inject)

lemma mirror_wf:
  "\<forall>e \<in> set m. wf_entry e \<Longrightarrow>
   \<exists>rev. mirror acc m = Inr rev
     \<and> set rev = set acc \<union> {entry (d, s) v | s d v. entry (s, d) v \<in> set m}"
proof (induction m arbitrary: acc)
  case Nil
  then show ?case by simp
next
  case (Cons e m)
  from Cons.prems have "wf_entry e" and wfm: "\<forall>x \<in> set m. wf_entry x" by simp_all
  then obtain s d v where e: "e = entry (s, d) v" using wf_entryE by blast
  have step: "mirror acc (e # m) = mirror (insort_right acc (entry (d, s) v)) m"
  proof -
    have "entry (d, s) v = str_int d @ ''.'' @ str_int s @ ''.'' @ v"
      by (simp add: entry_def separator_def)
    then show ?thesis
      by (simp only: e mirror.simps split2_entry list.case)
  qed
  from Cons.IH [OF wfm, of "insort_right acc (entry (d, s) v)"]
  obtain rev where r: "mirror (insort_right acc (entry (d, s) v)) m = Inr rev"
    and sr: "set rev = set (insort_right acc (entry (d, s) v))
               \<union> {entry (d, s) v | s d v. entry (s, d) v \<in> set m}"
    by blast
  have "set rev = set acc \<union> {entry (d, s) v | s d v. entry (s, d) v \<in> set (e # m)}"
    unfolding sr set_insort_right using e by (auto simp: entry_inj)
  with r step show ?case by simp
qed

lemma find_children_in_none:
  "\<forall>e \<in> set l. \<not> startswith e (str_int i @ separator) \<Longrightarrow> find_children_in l i = Inr None"
  by (simp add: find_children_in_def Let_def bisearch_none)

lemma get_parents_none:
  assumes "\<forall>e \<in> set m. wf_entry e \<and> \<not> has_destination i e"
  shows "get_parents m i = Inr []"
proof -
  from assms have wf: "\<forall>e \<in> set m. wf_entry e" by simp
  from mirror_wf [OF wf, of "[]"] obtain rev where r: "mirror [] m = Inr rev"
    and sr: "set rev = {entry (d, s) v | s d v. entry (s, d) v \<in> set m}"
    by auto
  have "\<forall>e \<in> set rev. \<not> startswith e (str_int i @ separator)"
  proof
    fix e assume "e \<in> set rev"
    with sr obtain s d v where e: "e = entry (d, s) v" and m: "entry (s, d) v \<in> set m" by auto
    from m assms have "\<not> has_destination i (entry (s, d) v)" by blast
    then have "d \<noteq> i" by (simp add: has_destination_entry)
    then show "\<not> startswith e (str_int i @ separator)" by (simp add: e startswith_source)
  qed
  then have "find_children_in rev i = Inr None" by (rule find_children_in_none)
  with r show ?thesis by (simp add: get_parents_def)
qed

lemma find_children_none:
  assumes "\<forall>e \<in> set m. wf_entry e \<and> \<not> has_source i e"
  shows "find_children m i = Inr None"
proof -
  have "\<forall>e \<in> set m. \<not> startswith e (str_int i @ separator)"
  proof
    fix e assume e: "e \<in> set m"
    with assms have "wf_entry e" by simp
    then obtain s d v where ee: "e = entry (s, d) v" using wf_entryE by blast
    with e assms have "s \<noteq> i" by (metis has_source_entry)
    then show "\<not> startswith e (str_int i @ separator)" by (simp add: ee startswith_source)
  qed
  then show ?thesis unfolding find_children_def by (rule find_children_in_none)
qed

text \<open>
  Claim C8, as amended. For a state that is not in the graph, \<open>get_outgoing_states\<close> and
  \<open>get_incoming_states\<close> return \<open>None\<close>, and \<open>get_outgoing_states_not_self\<close> returns the
  empty list. For a state of the graph with index \<open>i\<close>, on well-formed edges:
  if no edge has source \<open>i\<close> then \<open>get_outgoing_states\<close> and
  \<open>get_outgoing_states_not_self\<close> return the empty list, and if no edge has destination
  \<open>i\<close> then \<open>get_incoming_states\<close> returns the empty list. So the first and the third
  query tell an unknown state from a state without neighbours; the second does not.
\<close>

theorem neighbours_unknown_or_empty:
  "(state_indices_by_id g s = None \<longrightarrow>
      get_outgoing_states g s = Inr None
      \<and> get_incoming_states g s = Inr None
      \<and> get_outgoing_states_not_self g s = Inr [])
   \<and> (state_indices_by_id g s = Some i \<and> (\<forall>e \<in> set (edges g). wf_entry e \<and> \<not> has_source i e) \<longrightarrow>
      get_outgoing_states g s = Inr (Some [])
      \<and> get_outgoing_states_not_self g s = Inr [])
   \<and> (state_indices_by_id g s = Some i \<and> (\<forall>e \<in> set (edges g). wf_entry e \<and> \<not> has_destination i e) \<longrightarrow>
      get_incoming_states g s = Inr (Some []))"
  by (simp add: get_outgoing_states_def get_incoming_states_def get_outgoing_states_not_self_def
      find_children_none get_parents_none)

section \<open>Failing and degenerate mutations\<close>

lemma redirect_same: "redirect i i x = x"
  by (simp add: redirect_def)

text \<open>
  Claim C4, as amended. \<open>merge_states(s, s)\<close> is not rejected. For a state \<open>s\<close> of the
  graph whose index \<open>i\<close> is a key of \<open>states\<close>, the call returns normally; it removes
  \<open>s\<close> from \<open>state_indices_by_id\<close> and \<open>i\<close> from \<open>states\<close>, so that \<open>s\<close> is no longer
  in the graph; the terminal flag of \<open>s\<close> is as before; and on well-formed edges the
  pairs of the edges are as before, so every edge of \<open>s\<close> still mentions the index \<open>i\<close>.
\<close>

theorem merge_states_self_not_rejected:
  assumes i: "state_indices_by_id g s = Some i"
    and st: "states g i \<noteq> None"
  shows "\<exists>hp' g'.
      merge_states h (hp, g) s s = Inr (hp', g')
      \<and> \<not> graph_contains g' s
      \<and> state_indices_by_id g' = (state_indices_by_id g)(s := None)
      \<and> states g' = (states g)(i := None)
      \<and> is_terminal (hp' s) = is_terminal (hp s)
      \<and> ((\<forall>e \<in> set (edges g). wf_entry e) \<longrightarrow>
            set (edge_pairs (edges g')) = set (edge_pairs (edges g)))"
proof -
  define props where "props = log_templates (hp s) @
      filter (\<lambda>temp. temp \<notin> set (log_templates (hp s))) (log_templates (hp s))"
  define hp1 where "hp1 = hp(s := (hp s)\<lparr>log_templates := props\<rparr>)"
  define hp2 where "hp2 = (if is_terminal (hp1 s)
      then hp1(s := (hp1 s)\<lparr>is_terminal := True\<rparr>) else hp1)"
  define g1 where "g1 = (if start_node g = Some s then g\<lparr>start_node := Some s\<rparr> else g)"
  define w3 where "w3 = intern h (hp2, g1) s"
  define es where "es = change_children_of_parents (change_parent_of_children (edges g) i i) i i"
  define g7 where "g7 = (snd w3)\<lparr>edges := es, states := (states g)(i := None),
      state_indices_by_id := (state_indices_by_id g)(s := None)\<rparr>"
  have run: "merge_states h (hp, g) s s = Inr (fst w3, g7)"
    unfolding merge_states_def g7_def es_def w3_def g1_def hp2_def hp1_def props_def
    using i st by (auto simp: Let_def intern_graph)
  have c1: "\<not> graph_contains g7 s"
    and c2: "state_indices_by_id g7 = (state_indices_by_id g)(s := None)"
    and c3: "states g7 = (states g)(i := None)"
    by (simp_all add: g7_def graph_contains_def)
  have "is_terminal (fst w3 s) = is_terminal (hp2 s)"
    unfolding w3_def by (rule intern_is_terminal)
  then have c4: "is_terminal (fst w3 s) = is_terminal (hp s)"
    by (simp add: hp2_def hp1_def)
  have c5: "(\<forall>e \<in> set (edges g). wf_entry e) \<longrightarrow>
      set (edge_pairs (edges g7)) = set (edge_pairs (edges g))"
  proof
    assume wf: "\<forall>e \<in> set (edges g). wf_entry e"
    have "edges g7 = es" by (simp add: g7_def)
    then show "set (edge_pairs (edges g7)) = set (edge_pairs (edges g))"
      using merge_rewrites_pairs [OF wf, of i i] by (simp add: es_def redirect_same)
  qed
  show ?thesis
    using run c1 c2 c3 c4 c5 by blast
qed

lemma merge_states_error:
  assumes "merge_states h w a b = Inl (e, w')"
  shows "states (snd w') = states (snd w)"
    and "state_indices_by_id (snd w') = state_indices_by_id (snd w)"
    and "state_indices_by_id (snd w) a = None \<or> state_indices_by_id (snd w) b = None
      \<longrightarrow> edges (snd w') = edges (snd w)"
    and "state_indices_by_id (snd w) a = Some i1 \<and> state_indices_by_id (snd w) b = Some i2
      \<longrightarrow> states (snd w) i2 = None
          \<and> edges (snd w') =
              change_children_of_parents (change_parent_of_children (edges (snd w)) i1 i2) i2 i1"
    and "r \<noteq> a \<longrightarrow> fst w' r = fst w r"
    and "syntax_tree (snd w') = syntax_tree (snd w)"
proof -
  obtain hp g where w: "w = (hp, g)" by (cases w)
  define hp1 where "hp1 = hp(a := (hp a)\<lparr>log_templates := merged_templates hp a b\<rparr>)"
  define hp2 where "hp2 = (if is_terminal (hp1 b)
      then hp1(a := (hp1 a)\<lparr>is_terminal := True\<rparr>) else hp1)"
  define g1 where "g1 = (if start_node g = Some b then g\<lparr>start_node := Some a\<rparr> else g)"
  have hp': "fst w' = fst (intern h (hp2, g1) a)"
    using assms unfolding w merge_states_def hp2_def hp1_def g1_def merged_templates_def
    by (auto simp: Let_def split: option.splits if_splits)
  show "r \<noteq> a \<longrightarrow> fst w' r = fst w r"
  proof
    assume r: "r \<noteq> a"
    then have "fst w' r = hp2 r" unfolding hp' by (rule intern_heap_other)
    also have "hp2 r = hp r" using r by (simp add: hp2_def hp1_def)
    finally show "fst w' r = fst w r" by (simp add: w)
  qed
  show "syntax_tree (snd w') = syntax_tree (snd w)"
    using assms unfolding w merge_states_def
    by (auto simp: Let_def intern_def split: option.splits if_splits)
  show "states (snd w') = states (snd w)"
    using assms unfolding w merge_states_def
    by (auto simp: Let_def intern_graph split: option.splits if_splits)
  show "state_indices_by_id (snd w') = state_indices_by_id (snd w)"
    using assms unfolding w merge_states_def
    by (auto simp: Let_def intern_graph split: option.splits if_splits)
  show "state_indices_by_id (snd w) a = None \<or> state_indices_by_id (snd w) b = None
      \<longrightarrow> edges (snd w') = edges (snd w)"
    using assms unfolding w merge_states_def
    by (auto simp: Let_def intern_graph split: option.splits if_splits)
  show "state_indices_by_id (snd w) a = Some i1 \<and> state_indices_by_id (snd w) b = Some i2
      \<longrightarrow> states (snd w) i2 = None
          \<and> edges (snd w') =
              change_children_of_parents (change_parent_of_children (edges (snd w)) i1 i2) i2 i1"
    using assms unfolding w merge_states_def
    by (auto simp: Let_def intern_graph split: option.splits if_splits)
qed

text \<open>
  Claim C3, as amended. When \<open>add_state\<close> raises, the error is
  \<open>StateAlreadyExistsException\<close> and heap and graph are exactly as before the call.
  \<open>add_edge\<close> never raises, and when it reports failure the graph is as before. When
  \<open>merge_states\<close> raises, the mappings \<open>states\<close> and \<open>state_indices_by_id\<close> are as
  before the call. If it raises because one of the two states has no index, the adjacency
  index is as before the call as well. It raises otherwise only when both states have
  indices \<open>i1\<close> and \<open>i2\<close> and \<open>i2\<close> is not a key of \<open>states\<close>, and then the adjacency
  index has already been rewritten from \<open>i2\<close> to \<open>i1\<close>. In every case each state other than
  \<open>state1\<close> is as before the call, and nothing is said of the templates and the terminal
  flag of \<open>state1\<close>, of the start node and of the interning table, which the call writes
  before its first lookup and does not restore.
\<close>

theorem failed_mutation_effects:
  "(add_state h w s = Inl (e, w') \<longrightarrow> e = StateAlreadyExistsException \<and> w' = w)
   \<and> (add_edge g a b props = (g', False) \<longrightarrow> g' = g)
   \<and> (merge_states h w a b = Inl (e2, w2) \<longrightarrow>
        states (snd w2) = states (snd w)
        \<and> state_indices_by_id (snd w2) = state_indices_by_id (snd w)
        \<and> (state_indices_by_id (snd w) a = None \<or> state_indices_by_id (snd w) b = None
            \<longrightarrow> edges (snd w2) = edges (snd w))
        \<and> (state_indices_by_id (snd w) a = Some i1 \<and> state_indices_by_id (snd w) b = Some i2
            \<longrightarrow> states (snd w) i2 = None
                \<and> edges (snd w2) =
                    change_children_of_parents
                      (change_parent_of_children (edges (snd w)) i1 i2) i2 i1)
        \<and> (\<forall>r. r \<noteq> a \<longrightarrow> fst w2 r = fst w r))"
proof (intro conjI impI allI)
  assume "add_state h w s = Inl (e, w')"
  then show "e = StateAlreadyExistsException" "w' = w"
    by (auto simp: add_state_def Let_def split: if_splits)
next
  assume "add_edge g a b props = (g', False)"
  then show "g' = g"
    by (auto simp: add_edge_def split: option.splits if_splits)
next
  assume m: "merge_states h w a b = Inl (e2, w2)"
  show "states (snd w2) = states (snd w)"
    using m by (rule merge_states_error)
  show "state_indices_by_id (snd w2) = state_indices_by_id (snd w)"
    using m by (rule merge_states_error)
next
  assume m: "merge_states h w a b = Inl (e2, w2)"
    and "state_indices_by_id (snd w) a = None \<or> state_indices_by_id (snd w) b = None"
  with merge_states_error(3) [OF m] show "edges (snd w2) = edges (snd w)" by blast
next
  assume m: "merge_states h w a b = Inl (e2, w2)"
    and i: "state_indices_by_id (snd w) a = Some i1 \<and> state_indices_by_id (snd w) b = Some i2"
  with merge_states_error(4) [OF m, of i1 i2] show "states (snd w) i2 = None"
    "edges (snd w2) =
      change_children_of_parents (change_parent_of_children (edges (snd w)) i1 i2) i2 i1"
    by blast+
next
  fix r
  assume m: "merge_states h w a b = Inl (e2, w2)" and "r \<noteq> a"
  with merge_states_error(5) [OF m, of r] show "fst w2 r = fst w r" by blast
qed

section \<open>Trace matching\<close>

lemma choice_single: "choice r [s] = (s, (\<lambda>n. r (Suc n)))"
  by (simp add: choice_def)

lemma template_matches_state_eq:
  "template_matches_state hp template = (\<lambda>s. template \<in> set (log_templates (hp s)))"
  by (rule ext) (simp add: template_matches_state_def)

lemma sole_walk_Cons:
  assumes "sole_walk hp g cur (line # trace) = Some p"
  obtains template children s p' where
    "syntax_tree g line = Some template"
    "get_outgoing_states g cur = Inr (Some children)"
    "filter (template_matches_state hp template) children = [s]"
    "sole_walk hp g s trace = Some p'" "p = s # p'"
  using assms
  by (auto simp: template_matches_state_eq split: option.splits sum.splits list.splits)

lemma sole_walk_length: "sole_walk hp g cur trace = Some p \<Longrightarrow> length p = length trace"
proof (induction trace arbitrary: cur p)
  case Nil
  then show ?case by simp
next
  case (Cons line trace)
  from Cons.prems obtain s p' where "sole_walk hp g s trace = Some p'" "p = s # p'"
    by (rule sole_walk_Cons)
  with Cons.IH show ?case by simp
qed

lemma match_trace_loop_sole:
  "sole_walk hp g cur trace = Some p \<Longrightarrow>
   \<exists>r'. match_trace_loop hp g r cur res trace =
     (case accepts hp g (last (cur # p)) of
        Inl e \<Rightarrow> Inl e
      | Inr ok \<Rightarrow> Inr (if ok then Some (res @ p) else None, r'))"
proof (induction trace arbitrary: cur res r p)
  case Nil
  then show ?case
    by (auto simp: accepts_def split: sum.splits option.splits)
next
  case (Cons line trace)
  from Cons.prems obtain template children s p' where
    t: "syntax_tree g line = Some template"
    and c: "get_outgoing_states g cur = Inr (Some children)"
    and f: "filter (template_matches_state hp template) children = [s]"
    and w: "sole_walk hp g s trace = Some p'" and p: "p = s # p'"
    by (rule sole_walk_Cons)
  from Cons.IH [OF w, of "\<lambda>n. r (Suc n)" "res @ [s]"]
  obtain r' where ih: "match_trace_loop hp g (\<lambda>n. r (Suc n)) s (res @ [s]) trace =
     (case accepts hp g (last (s # p')) of
        Inl e \<Rightarrow> Inl e
      | Inr ok \<Rightarrow> Inr (if ok then Some ((res @ [s]) @ p') else None, r'))"
    by blast
  have step: "match_trace_loop hp g r cur res (line # trace) =
      match_trace_loop hp g (\<lambda>n. r (Suc n)) s (res @ [s]) trace"
    by (simp add: t c f choice_single)
  show ?case
    unfolding step ih p by (intro exI [of _ r']) (simp split: sum.splits)
qed

lemma match_trace_sole:
  assumes root: "start_node g = Some root"
    and walk: "sole_walk hp g root trace = Some p"
  shows "result_of (match_trace hp g r trace) =
     (if trace = [] then Inr (Some [])
      else (case accepts hp g (last p) of
              Inl e \<Rightarrow> Inl e
            | Inr ok \<Rightarrow> Inr (if ok then Some p else None)))"
proof (cases trace)
  case Nil
  then show ?thesis by (simp add: match_trace_def result_of_def)
next
  case (Cons line rest)
  from walk [unfolded Cons] obtain template children s p' where
    t: "syntax_tree g line = Some template"
    and c: "get_outgoing_states g root = Inr (Some children)"
    and f: "filter (template_matches_state hp template) children = [s]"
    and w: "sole_walk hp g s rest = Some p'" and p: "p = s # p'"
    by (rule sole_walk_Cons)
  have "s \<in> set (filter (template_matches_state hp template) children)" using f by simp
  then have ms: "template_matches_state hp template s" by simp
  have o: "outgoing_of_start g = Inr (Some children)" by (simp add: outgoing_of_start_def root c)
  show ?thesis
  proof (cases rest)
    case Nil
    with w p have p1: "p = [s]" by simp
    show ?thesis
      unfolding Cons Nil p1
      by (simp add: match_trace_def result_of_def t o f choice_single ms accepts_def
          split: sum.splits option.splits)
  next
    case (Cons line2 rest2)
    from w [unfolded Cons] obtain template2 children2 s2 p2 where
      t2: "syntax_tree g line2 = Some template2"
      and c2: "get_outgoing_states g s = Inr (Some children2)"
      and f2: "filter (template_matches_state hp template2) children2 = [s2]"
      and w2: "sole_walk hp g s2 rest2 = Some p2" and p': "p' = s2 # p2"
      by (rule sole_walk_Cons)
    from match_trace_loop_sole [OF w2, of "\<lambda>n. r (Suc (Suc n))" "[s2]"]
    obtain r' where l: "match_trace_rec hp g (\<lambda>n. r (Suc (Suc n))) s2 rest2 =
     (case accepts hp g (last (s2 # p2)) of
        Inl e \<Rightarrow> Inl e
      | Inr ok \<Rightarrow> Inr (if ok then Some ([s2] @ p2) else None, r'))"
      unfolding match_trace_rec_def by blast
    have lp: "last p = last (s2 # p2)" by (simp add: p p')
    show ?thesis
      unfolding \<open>trace = line # rest\<close> Cons lp
      by (simp add: match_trace_def result_of_def t o f choice_single ms t2 c2 f2 l p p'
          split: sum.splits)
  qed
qed

text \<open>
  Claim C9, as amended (trace matching is deterministic under no ambiguity). If at every
  step of the walk the line resolves and exactly one candidate state has the resolved
  template, then two runs of \<open>match_trace\<close> with any two states of the random generator
  hand back the same result, and this result is: the empty path for the empty trace;
  otherwise the unique path of visited states (the first chosen state included, the root
  excluded, one state for each line) if some outgoing state of the last visited state is
  terminal, \<open>None\<close> if none is, and the error of that last lookup if it raises.
\<close>

theorem match_trace_deterministic:
  assumes "unambiguous hp g trace"
  shows "result_of (match_trace hp g r1 trace) = result_of (match_trace hp g r2 trace)
    \<and> result_of (match_trace hp g r1 trace) =
        (if trace = [] then Inr (Some [])
         else (case accepts hp g (last (unique_path hp g trace)) of
                 Inl e \<Rightarrow> Inl e
               | Inr ok \<Rightarrow> Inr (if ok then Some (unique_path hp g trace) else None)))
    \<and> length (unique_path hp g trace) = length trace"
proof -
  from assms obtain root p where root: "start_node g = Some root"
    and walk: "sole_walk hp g root trace = Some p"
    by (auto simp: unambiguous_def split: option.splits)
  have up: "unique_path hp g trace = p" by (simp add: unique_path_def root walk)
  note m1 = match_trace_sole [OF root walk, of r1]
  note m2 = match_trace_sole [OF root walk, of r2]
  have a: "result_of (match_trace hp g r1 trace) = result_of (match_trace hp g r2 trace)"
    by (simp only: m1 m2)
  have c: "length p = length trace"
    using walk by (rule sole_walk_length)
  from a m1 c show ?thesis unfolding up by blast
qed

lemma filter_nth_mod:
  "filter P ys \<noteq> [] \<Longrightarrow> P (filter P ys ! (n mod length (filter P ys)))"
proof -
  assume ne: "filter P ys \<noteq> []"
  then have "n mod length (filter P ys) < length (filter P ys)" by simp
  then have "filter P ys ! (n mod length (filter P ys)) \<in> set (filter P ys)" by (rule nth_mem)
  then show ?thesis by simp
qed

text \<open>
  Claim C10 (\<open>match_trace\<close> writes its argument). Whenever \<open>match_trace\<close> returns, with
  a path or with \<open>None\<close>, the caller's list is the former list without its first element
  if the trace has at least two lines and its first line resolves to a template held by
  some outgoing state of the start node, and is unchanged otherwise (traces of length 0
  or 1, or no match at the first line).
\<close>

theorem match_trace_mutates_trace:
  assumes run: "match_trace hp g r trace = Inr (res, trace', r')"
  shows "trace' = (if 2 \<le> length trace \<and> first_line_matches hp g trace
                   then drop 1 trace else trace)"
proof (cases "length trace = 0")
  case True
  with run show ?thesis by (simp add: match_trace_def)
next
  case len: False
  show ?thesis
  proof (cases "syntax_tree g (trace ! 0)")
    case None
    with run len show ?thesis by (simp add: match_trace_def first_line_matches_def)
  next
    case (Some template)
    show ?thesis
    proof (cases "outgoing_of_start g")
      case (Inl e)
      with run len Some show ?thesis by (simp add: match_trace_def)
    next
      case (Inr o_opt)
      show ?thesis
      proof (cases o_opt)
        case None
        with run len Some Inr show ?thesis by (simp add: match_trace_def)
      next
        case out: (Some out)
        define root_children where "root_children = filter (template_matches_state hp template) out"
        show ?thesis
        proof (cases "root_children = []")
          case True
          with run len Some Inr out show ?thesis
            by (simp add: match_trace_def first_line_matches_def root_children_def)
        next
          case ne: False
          define current_state where "current_state = root_children ! (r 0 mod length root_children)"
          have m: "template_matches_state hp template current_state"
            using ne unfolding current_state_def root_children_def by (rule filter_nth_mod)
          have flm: "first_line_matches hp g trace"
            using ne by (simp add: first_line_matches_def Some Inr out root_children_def)
          show ?thesis
          proof (cases "length trace = 1")
            case True
            with run len Some Inr out ne m show ?thesis
              by (auto simp: match_trace_def Let_def choice_def root_children_def
                  current_state_def split: sum.splits option.splits if_splits)
          next
            case False
            with len have l2: "2 \<le> length trace" by arith
            from run len Some Inr out ne m False have "trace' = drop 1 trace"
              by (auto simp: match_trace_def Let_def choice_def root_children_def
                  current_state_def split: sum.splits option.splits if_splits prod.splits)
            with l2 flm show ?thesis by simp
          qed
        qed
      qed
    qed
  qed
qed

section \<open>The properties at concrete graphs\<close>

lemma lone_graph_built:
  "add_state id (hpT, new_graph Some (Some 3)) 3 = Inr (hpT, lone_graph)"
  by (simp add: add_state_def new_graph_def graph_contains_def intern_def Let_def hpT_def
      lone_graph_def)

lemma chain_edges:
  "setitem [] (0, 1) ''1'' = [''0.1.1'']"
  "setitem [''0.1.1''] (1, 2) ''1'' = [''0.1.1'', ''1.2.1'']"
  "setitem [''0.1.1'', ''1.2.1''] (2, 3) ''1'' = [''0.1.1'', ''1.2.1'', ''2.3.1'']"
  "contains [] (0, 1) = False"
  "contains [''0.1.1''] (1, 2) = False"
  "contains [''0.1.1'', ''1.2.1''] (2, 3) = False"
  by code_simp+

lemma chain_graph_built:
  "\<exists>g0 g1 g2.
     add_states id (hpT, new_graph Some (Some 0)) [0, 1, 2, 3] = Inr (hpT, g0)
     \<and> add_edge g0 0 1 ''1'' = (g1, True)
     \<and> add_edge g1 1 2 ''1'' = (g2, True)
     \<and> add_edge g2 2 3 ''1'' = (chain_graph, True)"
  by (simp add: add_state_def new_graph_def graph_contains_def intern_def Let_def hpT_def
      chain_graph_def add_edge_def chain_edges)

lemma chain_wf_entries:
  "wf_entry ''0.1.1''" "wf_entry ''1.2.1''" "wf_entry ''2.3.1''"
  by code_simp+

lemma chain_edge_pairs: "edge_pairs [''0.1.1'', ''1.2.1'', ''2.3.1''] = [(0, 1), (1, 2), (2, 3)]"
  by code_simp

lemma chain_well_formed: "well_formed chain_graph"
  by (auto simp: well_formed_def chain_graph_def chain_wf_entries split: if_splits)

lemma chain_no_collision: "no_collision id chain_graph (merged_templates hpT 1 2)"
  by (simp add: no_collision_def merged_templates_def hpT_def chain_graph_def)

lemma chain_find_children:
  "find_children [''0.1.1'', ''1.2.1'', ''2.3.1''] 0 = Inr (Some [(1, ''1'')])"
  "find_children [''0.1.1'', ''1.2.1'', ''2.3.1''] 1 = Inr (Some [(2, ''1'')])"
  "find_children [''0.1.1'', ''1.2.1'', ''2.3.1''] 2 = Inr (Some [(3, ''1'')])"
  "find_children [''0.1.1'', ''1.2.1'', ''2.3.1''] 3 = Inr None"
  by code_simp+

lemma chain_outgoing:
  "get_outgoing_states chain_graph 0 = Inr (Some [1])"
  "get_outgoing_states chain_graph 1 = Inr (Some [2])"
  "get_outgoing_states chain_graph 2 = Inr (Some [3])"
  "get_outgoing_states chain_graph 3 = Inr (Some [])"
  "get_outgoing_states chain_graph 7 = Inr None"
  by (simp_all add: get_outgoing_states_def chain_graph_def chain_find_children)

text \<open>
  The invariant of \<open>merge_states\<close> at the chain: merging \<open>s2\<close> into \<open>s1\<close> leaves the
  edges \<open>0 \<rightarrow> 1\<close>, \<open>1 \<rightarrow> 1\<close> and \<open>1 \<rightarrow> 3\<close>.
\<close>

theorem merge_states_invariant_witness:
  "well_formed chain_graph
   \<and> no_collision id chain_graph (merged_templates hpT 1 2)
   \<and> (1::ref) \<noteq> 2
   \<and> state_indices_by_id chain_graph 1 = Some 1
   \<and> state_indices_by_id chain_graph 2 = Some 2
   \<and> (\<exists>hp' g'.
      merge_states id (hpT, chain_graph) 1 2 = Inr (hp', g')
      \<and> get_state_by_id g' 2 = Inl StateDoesNotExistException
      \<and> get_state_by_id g' 1 = Inr 1
      \<and> state_indices_by_id g' = (state_indices_by_id chain_graph)(2 := None)
      \<and> states g' = (states chain_graph)(2 := None)
      \<and> set (edge_pairs (edges g')) = {(0, 1), (1, 1), (1, 3)}
      \<and> (\<forall>e \<in> set (edges g'). wf_entry e)
      \<and> (\<forall>k \<in> set (edge_pairs (edges g')). fst k \<noteq> 2 \<and> snd k \<noteq> 2)
      \<and> set (log_templates (hp' 1)) = {''A''} \<union> {''B''}
      \<and> (is_terminal (hp' 1) \<longleftrightarrow> False \<or> False)
      \<and> (\<forall>r. r \<noteq> 1 \<longrightarrow> hp' r = hpT r)
      \<and> start_node g' = Some 0
      \<and> graph_size g' + 1 = graph_size chain_graph
      \<and> well_formed g')"
proof -
  have i: "state_indices_by_id chain_graph 1 = Some 1" "state_indices_by_id chain_graph 2 = Some 2"
    by (simp_all add: chain_graph_def)
  have ne: "(1::ref) \<noteq> 2" by simp
  have img: "(\<lambda>k. (redirect 2 1 (fst k), redirect 2 1 (snd k))) ` set (edge_pairs (edges chain_graph))
      = {(0, 1), (1, 1), (1, 3)}"
    by (simp add: chain_graph_def chain_edge_pairs redirect_def)
  have tm: "set (log_templates (hpT 1)) = {''A''}" "set (log_templates (hpT 2)) = {''B''}"
    "is_terminal (hpT 1) = False" "is_terminal (hpT 2) = False"
    by (simp_all add: hpT_def)
  have sn: "(if start_node chain_graph = Some 2 then Some 1 else start_node chain_graph) = Some 0"
    by (simp add: chain_graph_def)
  note m = merge_states_invariant [OF chain_well_formed chain_no_collision ne i,
      unfolded img tm sn]
  show ?thesis
    by (intro conjI) (rule chain_well_formed chain_no_collision ne i m)+
qed

lemma stale_edges:
  "setitem [] (2, 0) ''1'' = [''2.0.1'']"
  "contains [] (2, 0) = False"
  "change_children_of_parents (change_parent_of_children [''2.0.1''] 0 2) 2 0 = [''0.0.1'']"
  by code_simp+

lemmas reuse_defs =
  add_state_def merge_states_def intern_def Let_def raised_def world_after_def
  change_parent_of_children_def change_children_of_parents_def graph_contains_def
  new_graph_def hpA_def

lemma reused_world_fields:
  "states (snd reused_world) = [0 \<mapsto> 0]"
  "state_indices_by_id (snd reused_world) = [0 \<mapsto> 0, 3 \<mapsto> 2]"
  "edges (snd reused_world) = []"
  by (simp_all add: reused_world_def reuse_defs fun_eq_iff)

lemma reused_world_built:
  "\<exists>w1 w2 w3.
     add_states id (hpA, new_graph Some None) [0, 1, 2] = Inr w1
     \<and> merge_states id w1 0 1 = Inr w2
     \<and> add_state id w2 3 = Inr w3
     \<and> merge_states id w3 0 2 = Inr reused_world"
  by (simp add: reused_world_def reuse_defs)

lemma stale_world_fields:
  "states (snd stale_world) = [0 \<mapsto> 0]"
  "state_indices_by_id (snd stale_world) = [0 \<mapsto> 0, 3 \<mapsto> 2]"
  "edges (snd stale_world) = [''2.0.1'']"
  by (simp_all add: stale_world_def add_edge_def reused_world_fields stale_edges)

lemma stale_world_built: "add_edge (snd reused_world) 3 0 ''1'' = (snd stale_world, True)"
  by (simp add: stale_world_def add_edge_def reused_world_fields stale_edges)

lemma stale_merge:
  "merge_states id stale_world 0 3 = Inl (KeyError, world_after (merge_states id stale_world 0 3))"
  by (simp add: merge_states_def Let_def intern_graph stale_world_fields world_after_def)

lemma collide_world_fields:
  "states (snd collide_world) = [0 \<mapsto> 0, 1 \<mapsto> 1, 2 \<mapsto> 2]"
  "state_indices_by_id (snd collide_world) = [0 \<mapsto> 0, 1 \<mapsto> 1, 2 \<mapsto> 2]"
  "edges (snd collide_world) = []"
  "prop_by_hash (snd collide_world) = [[''A''] \<mapsto> [''A''], [''B''] \<mapsto> [''B''], [] \<mapsto> [''C'', ''D'']]"
  "fst collide_world = hpC"
  by (simp_all add: collide_world_def reuse_defs fun_eq_iff hpC_def colliding_hash_def)

lemma collide_well_formed: "well_formed (snd collide_world)"
  by (auto simp: well_formed_def collide_world_fields split: if_splits)

text \<open>
  Claim C1 as stated fails. After \<open>add_state(s0)\<close>, \<open>add_state(s1)\<close>, \<open>add_state(s2)\<close>,
  \<open>merge_states(s0, s1)\<close>, \<open>add_state(s3)\<close> and \<open>merge_states(s0, s2)\<close> the distinct
  states \<open>s0\<close> and \<open>s3\<close> are both in the graph, and \<open>merge_states(s0, s3)\<close> raises
  \<open>KeyError\<close>: \<open>s3\<close> is still in the graph, although its index is no key of \<open>states\<close>,
  and the size is as before. And on a well-formed graph with \<open>State(["A"])\<close>,
  \<open>State(["B"])\<close> and \<open>State(["C", "D"])\<close>, under a hash that does not tell template
  lists of length two apart, \<open>merge_states(s0, s1)\<close> returns and leaves \<open>s0\<close> with the
  templates \<open>["C", "D"]\<close>, which hold neither \<open>"A"\<close> nor \<open>"B"\<close>.
\<close>

theorem merge_states_fails_after_index_reuse:
  "graph_contains (snd reused_world) 0
   \<and> graph_contains (snd reused_world) 3
   \<and> (0::ref) \<noteq> 3
   \<and> raised (merge_states id reused_world 0 3) = Some KeyError
   \<and> graph_contains (snd (world_after (merge_states id reused_world 0 3))) 3
   \<and> get_state_by_id (snd (world_after (merge_states id reused_world 0 3))) 3 = Inl KeyError
   \<and> graph_size (snd reused_world) = 1
   \<and> graph_size (snd (world_after (merge_states id reused_world 0 3))) = 1
   \<and> well_formed (snd collide_world)
   \<and> raised (merge_states colliding_hash collide_world 0 1) = None
   \<and> log_templates (fst collide_world 0) = [''A'']
   \<and> log_templates (fst collide_world 1) = [''B'']
   \<and> log_templates (fst (world_after (merge_states colliding_hash collide_world 0 1)) 0)
       = [''C'', ''D'']"
proof -
  have a: "graph_contains (snd reused_world) 0" "graph_contains (snd reused_world) 3"
    by (simp_all add: graph_contains_def reused_world_fields)
  have m: "merge_states id reused_world 0 3
      = Inl (KeyError, world_after (merge_states id reused_world 0 3))"
    by (simp add: merge_states_def Let_def intern_graph reused_world_fields world_after_def)
  have r: "raised (merge_states id reused_world 0 3) = Some KeyError"
    by (subst m) (simp add: raised_def)
  have s: "states (snd (world_after (merge_states id reused_world 0 3))) = [0 \<mapsto> 0]"
    "state_indices_by_id (snd (world_after (merge_states id reused_world 0 3))) = [0 \<mapsto> 0, 3 \<mapsto> 2]"
    using merge_states_error(1,2) [OF m] by (simp_all add: reused_world_fields)
  have b: "graph_contains (snd (world_after (merge_states id reused_world 0 3))) 3"
    "get_state_by_id (snd (world_after (merge_states id reused_world 0 3))) 3 = Inl KeyError"
    "graph_size (snd reused_world) = 1"
    "graph_size (snd (world_after (merge_states id reused_world 0 3))) = 1"
    by (simp_all add: graph_contains_def get_state_by_id_def graph_size_def s reused_world_fields)
  have c: "raised (merge_states colliding_hash collide_world 0 1) = None"
    "log_templates (fst collide_world 0) = [''A'']"
    "log_templates (fst collide_world 1) = [''B'']"
    "log_templates (fst (world_after (merge_states colliding_hash collide_world 0 1)) 0)
       = [''C'', ''D'']"
    by (simp_all add: collide_world_fields reuse_defs hpC_def colliding_hash_def)
  have ne: "(0::ref) \<noteq> 3" by simp
  show ?thesis
    by (intro conjI) (rule a ne r b collide_well_formed c)+
qed

lemmas lone_defs =
  merge_states_def lone_graph_def hpT_def intern_def Let_def raised_def world_after_def
  change_parent_of_children_def change_children_of_parents_def graph_contains_def

text \<open>
  Claim C3 as stated fails. On the graph that holds only \<open>s3\<close>, the call
  \<open>merge_states(s0, s3)\<close> with \<open>s0\<close> not in the graph raises, and at that
  moment the start node is \<open>s0\<close> instead of \<open>s3\<close>, \<open>s0\<close> has the templates of both
  states and is terminal, and the interning table has a new entry. And on the graph with
  the states \<open>s0\<close> and \<open>s3\<close> and the edge \<open>s3 \<rightarrow> s0\<close>, where the index \<open>2\<close> of \<open>s3\<close>
  is no key of \<open>states\<close>, the call \<open>merge_states(s0, s3)\<close> raises after it has
  rewritten the adjacency index from \<open>"2.0.1"\<close> to \<open>"0.0.1"\<close>.
\<close>

theorem merge_states_partial_mutation:
  "raised (merge_states id (hpT, lone_graph) 0 3) \<noteq> None
   \<and> start_node lone_graph = Some 3
   \<and> start_node (snd (world_after (merge_states id (hpT, lone_graph) 0 3))) = Some 0
   \<and> log_templates (hpT 0) = ['''']
   \<and> log_templates (fst (world_after (merge_states id (hpT, lone_graph) 0 3)) 0) = ['''', ''C'']
   \<and> \<not> is_terminal (hpT 0)
   \<and> is_terminal (fst (world_after (merge_states id (hpT, lone_graph) 0 3)) 0)
   \<and> prop_by_hash lone_graph ['''', ''C''] = None
   \<and> prop_by_hash (snd (world_after (merge_states id (hpT, lone_graph) 0 3))) ['''', ''C'']
       = Some ['''', ''C'']
   \<and> graph_contains (snd stale_world) 0
   \<and> graph_contains (snd stale_world) 3
   \<and> raised (merge_states id stale_world 0 3) = Some KeyError
   \<and> edges (snd stale_world) = [''2.0.1'']
   \<and> edges (snd (world_after (merge_states id stale_world 0 3))) = [''0.0.1'']"
proof -
  have l: "raised (merge_states id (hpT, lone_graph) 0 3) \<noteq> None
   \<and> start_node lone_graph = Some 3
   \<and> start_node (snd (world_after (merge_states id (hpT, lone_graph) 0 3))) = Some 0
   \<and> log_templates (hpT 0) = ['''']
   \<and> log_templates (fst (world_after (merge_states id (hpT, lone_graph) 0 3)) 0) = ['''', ''C'']
   \<and> \<not> is_terminal (hpT 0)
   \<and> is_terminal (fst (world_after (merge_states id (hpT, lone_graph) 0 3)) 0)
   \<and> prop_by_hash lone_graph ['''', ''C''] = None
   \<and> prop_by_hash (snd (world_after (merge_states id (hpT, lone_graph) 0 3))) ['''', ''C'']
       = Some ['''', ''C'']"
    by (simp add: lone_defs)
  have a: "graph_contains (snd stale_world) 0" "graph_contains (snd stale_world) 3"
    by (simp_all add: graph_contains_def stale_world_fields)
  have r: "raised (merge_states id stale_world 0 3) = Some KeyError"
    by (subst stale_merge) (simp add: raised_def)
  have e: "edges (snd (world_after (merge_states id stale_world 0 3))) = [''0.0.1'']"
    using merge_states_error(4) [OF stale_merge, of 0 2]
    by (simp add: stale_world_fields stale_edges)
  from l a r e stale_world_fields(3) show ?thesis by blast
qed

text \<open>
  The three failing calls at the graph that holds only \<open>s3\<close>: \<open>add_state(s3)\<close>,
  \<open>add_edge(s0, s3, "1")\<close> and \<open>merge_states(s0, s3)\<close>, which fails at the lookup of
  the index of \<open>s0\<close>; and \<open>merge_states(s0, s3)\<close> at the graph with the edge
  \<open>s3 \<rightarrow> s0\<close>, which fails at the removal of index \<open>2\<close> from \<open>states\<close>.
\<close>

theorem failed_mutation_effects_witness:
  "add_state id (hpT, lone_graph) 3 = Inl (StateAlreadyExistsException, (hpT, lone_graph))
   \<and> add_edge lone_graph 0 3 ''1'' = (lone_graph, False)
   \<and> merge_states id (hpT, lone_graph) 0 3
       = Inl (KeyError, world_after (merge_states id (hpT, lone_graph) 0 3))
   \<and> states (snd (world_after (merge_states id (hpT, lone_graph) 0 3))) = states lone_graph
   \<and> state_indices_by_id (snd (world_after (merge_states id (hpT, lone_graph) 0 3)))
       = state_indices_by_id lone_graph
   \<and> state_indices_by_id lone_graph 0 = None
   \<and> edges (snd (world_after (merge_states id (hpT, lone_graph) 0 3))) = edges lone_graph
   \<and> fst (world_after (merge_states id (hpT, lone_graph) 0 3)) 3 = hpT 3
   \<and> merge_states id stale_world 0 3
       = Inl (KeyError, world_after (merge_states id stale_world 0 3))
   \<and> state_indices_by_id (snd stale_world) 0 = Some 0
   \<and> state_indices_by_id (snd stale_world) 3 = Some 2
   \<and> states (snd (world_after (merge_states id stale_world 0 3))) = states (snd stale_world)
   \<and> state_indices_by_id (snd (world_after (merge_states id stale_world 0 3)))
       = state_indices_by_id (snd stale_world)
   \<and> states (snd stale_world) 2 = None
   \<and> edges (snd stale_world) = [''2.0.1'']
   \<and> edges (snd (world_after (merge_states id stale_world 0 3))) = [''0.0.1'']"
proof -
  have a: "add_state id (hpT, lone_graph) 3 = Inl (StateAlreadyExistsException, (hpT, lone_graph))"
    by (simp add: add_state_def lone_graph_def graph_contains_def)
  have b: "add_edge lone_graph 0 3 ''1'' = (lone_graph, False)"
    by (simp add: add_edge_def lone_graph_def)
  have c: "merge_states id (hpT, lone_graph) 0 3
       = Inl (KeyError, world_after (merge_states id (hpT, lone_graph) 0 3))"
    by (simp add: lone_defs)
  have n: "state_indices_by_id lone_graph 0 = None"
    by (simp add: lone_graph_def)
  have i: "state_indices_by_id (snd stale_world) 0 = Some 0"
    "state_indices_by_id (snd stale_world) 3 = Some 2"
    by (simp_all add: stale_world_fields)
  note l = failed_mutation_effects [of id "(hpT, lone_graph)" 3 StateAlreadyExistsException
      "(hpT, lone_graph)" lone_graph 0 3 "''1''" lone_graph KeyError
      "world_after (merge_states id (hpT, lone_graph) 0 3)", THEN conjunct2, THEN conjunct2,
      rule_format, OF c]
  note t = failed_mutation_effects [of id stale_world 3 StateAlreadyExistsException
      stale_world lone_graph 0 3 "''1''" lone_graph KeyError
      "world_after (merge_states id stale_world 0 3)" 0 2, THEN conjunct2, THEN conjunct2,
      rule_format, OF stale_merge]
  have l1: "states (snd (world_after (merge_states id (hpT, lone_graph) 0 3))) = states lone_graph"
    using l by simp
  have l2: "state_indices_by_id (snd (world_after (merge_states id (hpT, lone_graph) 0 3)))
       = state_indices_by_id lone_graph"
    using l by simp
  have l3: "edges (snd (world_after (merge_states id (hpT, lone_graph) 0 3))) = edges lone_graph"
    using l n by simp
  have l4: "fst (world_after (merge_states id (hpT, lone_graph) 0 3)) 3 = hpT 3"
    using l by simp
  have t1: "states (snd (world_after (merge_states id stale_world 0 3))) = states (snd stale_world)"
    using t by simp
  have t2: "state_indices_by_id (snd (world_after (merge_states id stale_world 0 3)))
       = state_indices_by_id (snd stale_world)"
    using t by simp
  have t3: "states (snd stale_world) 2 = None"
    using t i by simp
  have t4: "edges (snd (world_after (merge_states id stale_world 0 3))) = [''0.0.1'']"
    using t i by (simp add: stale_world_fields(3) stale_edges)
  show ?thesis
    by (intro conjI) (rule a b c l1 l2 n l3 l4 stale_merge i t1 t2 t3 stale_world_fields(3) t4)+
qed


text \<open>
  Claim C4 as stated fails. On the graph that holds only \<open>s3\<close>, the call
  \<open>merge_states(s3, s3)\<close> raises nothing, and afterwards \<open>s3\<close> is not in the graph and
  index \<open>0\<close> is not a key of \<open>states\<close>.
\<close>

theorem merge_states_self_accepted:
  "graph_contains lone_graph 3
   \<and> raised (merge_states id (hpT, lone_graph) 3 3) = None
   \<and> \<not> graph_contains (snd (world_after (merge_states id (hpT, lone_graph) 3 3))) 3
   \<and> states lone_graph 0 = Some 3
   \<and> states (snd (world_after (merge_states id (hpT, lone_graph) 3 3))) 0 = None"
  by (simp add: lone_defs)

text \<open>
  The self-merge of \<open>s1\<close> in the chain: \<open>s1\<close> leaves the graph and the edges
  \<open>0 \<rightarrow> 1\<close> and \<open>1 \<rightarrow> 2\<close> stay.
\<close>

theorem merge_states_self_not_rejected_witness:
  "state_indices_by_id chain_graph 1 = Some 1
   \<and> states chain_graph 1 \<noteq> None
   \<and> list_all wf_entry (edges chain_graph)
   \<and> (\<exists>hp' g'.
      merge_states id (hpT, chain_graph) 1 1 = Inr (hp', g')
      \<and> \<not> graph_contains g' 1
      \<and> state_indices_by_id g' = (state_indices_by_id chain_graph)(1 := None)
      \<and> states g' = (states chain_graph)(1 := None)
      \<and> is_terminal (hp' 1) = is_terminal (hpT 1)
      \<and> set (edge_pairs (edges g')) = {(0, 1), (1, 2), (2, 3)})"
proof -
  have i: "state_indices_by_id chain_graph 1 = Some 1" and s: "states chain_graph 1 \<noteq> None"
    and wf: "\<forall>e \<in> set (edges chain_graph). wf_entry e"
    by (simp_all add: chain_graph_def chain_wf_entries)
  have p: "set (edge_pairs (edges chain_graph)) = {(0, 1), (1, 2), (2, 3)}"
    by (simp add: chain_graph_def chain_edge_pairs)
  from merge_states_self_not_rejected [OF i s, of id hpT] wf
  show ?thesis
    unfolding p list_all_iff using i s by simp
qed

text \<open>
  Claim C8 as stated fails for \<open>get_outgoing_states_not_self\<close>. In the chain, \<open>s3\<close> is a
  state without outgoing states and \<open>s7\<close> is not in the graph; the query returns the
  empty list for both.
\<close>

theorem not_self_hides_unknown_state:
  "graph_contains chain_graph 3
   \<and> \<not> graph_contains chain_graph 7
   \<and> get_outgoing_states chain_graph 3 = Inr (Some [])
   \<and> get_outgoing_states_not_self chain_graph 3 = Inr []
   \<and> get_outgoing_states_not_self chain_graph 7 = Inr []"
  by (simp add: get_outgoing_states_not_self_def chain_outgoing)
    (simp add: graph_contains_def chain_graph_def)

lemma chain_no_edges:
  "\<forall>e \<in> set (edges chain_graph). wf_entry e \<and> \<not> has_source 3 e"
  "\<forall>e \<in> set (edges chain_graph). wf_entry e \<and> \<not> has_destination 0 e"
  by (simp_all add: chain_graph_def chain_wf_entries) code_simp+

text \<open>
  The neighbour queries at the chain: the unknown \<open>s7\<close>, the state \<open>s3\<close> without
  outgoing edges and the root \<open>s0\<close> without incoming edges.
\<close>

theorem neighbours_unknown_or_empty_witness:
  "state_indices_by_id chain_graph 7 = None
   \<and> get_outgoing_states chain_graph 7 = Inr None
   \<and> get_incoming_states chain_graph 7 = Inr None
   \<and> get_outgoing_states_not_self chain_graph 7 = Inr []
   \<and> state_indices_by_id chain_graph 3 = Some 3
   \<and> list_all (\<lambda>e. wf_entry e \<and> \<not> has_source 3 e) (edges chain_graph)
   \<and> get_outgoing_states chain_graph 3 = Inr (Some [])
   \<and> get_outgoing_states_not_self chain_graph 3 = Inr []
   \<and> state_indices_by_id chain_graph 0 = Some 0
   \<and> list_all (\<lambda>e. wf_entry e \<and> \<not> has_destination 0 e) (edges chain_graph)
   \<and> get_incoming_states chain_graph 0 = Inr (Some [])"
proof -
  have i: "state_indices_by_id chain_graph 7 = None" "state_indices_by_id chain_graph 3 = Some 3"
    "state_indices_by_id chain_graph 0 = Some 0"
    by (simp_all add: chain_graph_def)
  from neighbours_unknown_or_empty [of chain_graph 7 0]
    neighbours_unknown_or_empty [of chain_graph 3 3]
    neighbours_unknown_or_empty [of chain_graph 0 0]
  show ?thesis
    unfolding list_all_iff using i chain_no_edges by simp
qed

lemma hpT_simps:
  "hpT 0 = \<lparr>log_templates = [''''], is_terminal = False\<rparr>"
  "hpT (Suc 0) = \<lparr>log_templates = [''A''], is_terminal = False\<rparr>"
  "hpT 2 = \<lparr>log_templates = [''B''], is_terminal = False\<rparr>"
  "hpT 3 = \<lparr>log_templates = [''C''], is_terminal = True\<rparr>"
  by (simp_all add: hpT_def)

lemma chain_outgoing_Suc: "get_outgoing_states chain_graph (Suc 0) = Inr (Some [2])"
  using chain_outgoing(2) by simp

lemma chain_fields:
  "syntax_tree chain_graph = Some" "start_node chain_graph = Some 0"
  by (simp_all add: chain_graph_def)

lemma chain_sole_walk: "sole_walk hpT chain_graph 0 [''A'', ''B''] = Some [1, 2]"
  by (simp add: chain_outgoing chain_outgoing_Suc chain_fields template_matches_state_def
      hpT_simps)

lemma chain_match_trace:
  "match_trace hpT chain_graph (\<lambda>n. 0) [''A'', ''B''] = Inr (Some [1, 2], [''B''], (\<lambda>n. 0))"
  by (simp add: match_trace_def match_trace_rec_def outgoing_of_start_def chain_outgoing
      chain_outgoing_Suc chain_fields template_matches_state_def hpT_simps choice_def Let_def)

text \<open>
  The trace \<open>["A", "B"]\<close> on the chain is unambiguous and \<open>s2\<close> has the terminal
  outgoing state \<open>s3\<close>; two generators give the path \<open>[s1, s2]\<close>.
\<close>

theorem match_trace_deterministic_witness:
  "unambiguous hpT chain_graph [''A'', ''B'']
   \<and> result_of (match_trace hpT chain_graph (\<lambda>n. 0) [''A'', ''B''])
       = result_of (match_trace hpT chain_graph (\<lambda>n. n) [''A'', ''B''])
   \<and> unique_path hpT chain_graph [''A'', ''B''] = [1, 2]
   \<and> accepts hpT chain_graph 2 = Inr True
   \<and> result_of (match_trace hpT chain_graph (\<lambda>n. n) [''A'', ''B'']) = Inr (Some [1, 2])"
proof -
  have u: "unambiguous hpT chain_graph [''A'', ''B'']"
    by (simp add: unambiguous_def chain_fields chain_sole_walk del: sole_walk.simps)
  have p: "unique_path hpT chain_graph [''A'', ''B''] = [1, 2]"
    by (simp add: unique_path_def chain_fields chain_sole_walk del: sole_walk.simps)
  have t: "accepts hpT chain_graph 2 = Inr True"
    by (simp add: accepts_def chain_outgoing hpT_simps)
  note d = match_trace_deterministic [OF u, of "\<lambda>n. 0" "\<lambda>n. n"]
  have e: "result_of (match_trace hpT chain_graph (\<lambda>n. 0) [''A'', ''B''])
      = result_of (match_trace hpT chain_graph (\<lambda>n. n) [''A'', ''B''])"
    using d by (rule conjunct1)
  have "result_of (match_trace hpT chain_graph (\<lambda>n. 0) [''A'', ''B'']) = Inr (Some [1, 2])"
    using d [THEN conjunct2, THEN conjunct1] by (simp add: p t)
  with e have "result_of (match_trace hpT chain_graph (\<lambda>n. n) [''A'', ''B'']) = Inr (Some [1, 2])"
    by (rule subst)
  with u e p t show ?thesis by blast
qed

text \<open>
  Claim C9 as stated fails. The trace \<open>["A"]\<close> on the chain is unambiguous, with the unique
  path \<open>[s1]\<close>; the only outgoing state of \<open>s1\<close> is \<open>s2\<close>, which is not terminal, and
  \<open>match_trace\<close> returns \<open>None\<close> instead of the path.
\<close>

theorem match_trace_rejects_unambiguous_trace:
  "unambiguous hpT chain_graph [''A'']
   \<and> unique_path hpT chain_graph [''A''] = [1]
   \<and> get_outgoing_states chain_graph 1 = Inr (Some [2])
   \<and> is_terminal (hpT 2) = False
   \<and> result_of (match_trace hpT chain_graph (\<lambda>n. 0) [''A'']) = Inr None"
  by (simp add: unambiguous_def unique_path_def result_of_def match_trace_def
      outgoing_of_start_def chain_outgoing chain_outgoing_Suc chain_fields
      template_matches_state_def hpT_simps choice_def Let_def)

text \<open>
  The trace \<open>["A", "B"]\<close> on the chain: \<open>match_trace\<close> returns the path and leaves the list
  \<open>["B"]\<close> to its caller.
\<close>

theorem match_trace_mutates_trace_witness:
  "match_trace hpT chain_graph (\<lambda>n. 0) [''A'', ''B''] = Inr (Some [1, 2], [''B''], (\<lambda>n. 0))
   \<and> first_line_matches hpT chain_graph [''A'', ''B'']
   \<and> [''B''] = drop 1 [''A'', ''B'']"
proof -
  have f: "first_line_matches hpT chain_graph [''A'', ''B'']"
    by (simp add: first_line_matches_def outgoing_of_start_def chain_outgoing chain_fields
        template_matches_state_def hpT_simps)
  from match_trace_mutates_trace [OF chain_match_trace] f chain_match_trace
  show ?thesis by simp
qed

end
